theory Spec2Isabelle
  imports Main "HOL-Library.Multiset" "HOL-Library.AList"
begin

section \<open>JavaScript values\<close>

text \<open>
  The WordPress source plugin (\<^verbatim>\<open>packages/source-wordpress/index.js\<close>) handles
  untyped data: response bodies, headers and records are whatever the HTTP client delivers.
  Values are modelled by the datatype \<open>json\<close>. An object is an association list of
  its own properties in enumeration order; a property is looked up with \<open>map_of\<close>.
  Strings are \<open>char list\<close>, one \<open>char\<close> standing for one code unit of the
  JavaScript string; numbers are the integers (the page counts and remote ids the plugin
  handles), rendered in decimal as \<^verbatim>\<open>'' + n\<close> renders a safe integer.
\<close>

datatype json =
    JUndefined
  | JNull
  | JBool bool
  | JNum int
  | JStr string
  | JArr "json list"
  | JObj "(string \<times> json) list"

text \<open>
  What the program can throw or reject with:
  \<open>Error msg\<close> is \<^verbatim>\<open>new Error(msg)\<close>; \<open>TypeError\<close> is a
  TypeError raised by the runtime (calling a method a value does not have, reading a
  property of \<^verbatim>\<open>null\<close>, spreading a value that is not iterable);
  \<open>Reason s\<close> is a promise rejected with the plain string \<open>s\<close>;
  \<open>HttpFailure d\<close> is the error \<^verbatim>\<open>axios.get\<close> rejects with (network
  failure or a status outside 2xx), \<open>d\<close> being its rendering as a string.
\<close>

datatype js_error =
    Error string
  | TypeError
  | Reason string
  | HttpFailure string

subsection \<open>Numbers as decimal strings\<close>

definition digit_char :: "nat \<Rightarrow> char" where
  "digit_char d = char_of (48 + d)"

fun show_nat :: "nat \<Rightarrow> string" where
  "show_nat n = (if n < 10 then [digit_char n] else show_nat (n div 10) @ [digit_char (n mod 10)])"

definition show_int :: "int \<Rightarrow> string" where
  "show_int i = (if i < 0 then CHR ''-'' # show_nat (nat (- i)) else show_nat (nat i))"

subsection \<open>ToString\<close>

text \<open>
  The abstract operation ToString, used by template literals, by property keys and by
  \<^verbatim>\<open>JSON.parse\<close> on its argument. An array is joined with commas, its
  \<^verbatim>\<open>null\<close> and \<^verbatim>\<open>undefined\<close> elements rendered empty. A plain
  object renders as \<^verbatim>\<open>[object Object]\<close> through \<^verbatim>\<open>Object.prototype.toString\<close>;
  when it has an own property \<^verbatim>\<open>toString\<close> (never callable for data that came
  from JSON) the conversion throws a TypeError.
\<close>

fun ToString :: "json \<Rightarrow> js_error + string"
  and join_elems :: "json list \<Rightarrow> js_error + string"
  and elem_string :: "json \<Rightarrow> js_error + string" where
  "ToString JUndefined = Inr ''undefined''"
| "ToString JNull = Inr ''null''"
| "ToString (JBool b) = Inr (if b then ''true'' else ''false'')"
| "ToString (JNum i) = Inr (show_int i)"
| "ToString (JStr s) = Inr s"
| "ToString (JArr xs) = join_elems xs"
| "ToString (JObj kvs) =
     (if ''toString'' \<in> fst ` set kvs then Inl TypeError else Inr ''[object Object]'')"
| "join_elems [] = Inr []"
| "join_elems [x] = elem_string x"
| "join_elems (x # y # ys) =
     (case elem_string x of
        Inl e \<Rightarrow> Inl e
      | Inr s \<Rightarrow> (case join_elems (y # ys) of
                    Inl e \<Rightarrow> Inl e
                  | Inr t \<Rightarrow> Inr (s @ '','' @ t)))"
| "elem_string JUndefined = Inr []"
| "elem_string JNull = Inr []"
| "elem_string (JBool b) = ToString (JBool b)"
| "elem_string (JNum i) = ToString (JNum i)"
| "elem_string (JStr s) = ToString (JStr s)"
| "elem_string (JArr xs) = ToString (JArr xs)"
| "elem_string (JObj kvs) = ToString (JObj kvs)"

subsection \<open>Strings\<close>

text \<open>
  \<^verbatim>\<open>String.prototype.trim\<close> removes white space and line terminators from both
  ends; among the code units below 256 these are 9 to 13, 32 and 160.
\<close>

definition is_space :: "char \<Rightarrow> bool" where
  "is_space c = (of_char c \<in> {9, 10, 11, 12, 13, 32, 160 :: nat})"

definition trim :: "string \<Rightarrow> string" where
  "trim s = rev (dropWhile is_space (rev (dropWhile is_space s)))"

definition substring0 :: "nat \<Rightarrow> string \<Rightarrow> string" where
  "substring0 n s = take n s"

definition newline :: string where
  "newline = [CHR 0x0A]"

section \<open>Response Normalizer: ensureArrayData\<close>

text \<open>
  \<^verbatim>\<open>JSON.parse\<close> is the runtime's: the model takes the parser of JSON text as a
  parameter \<open>parse\<close>, \<open>None\<close> meaning that it throws. \<^verbatim>\<open>JSON.parse(data)\<close>
  first converts its argument with ToString, inside the \<^verbatim>\<open>try\<close>.
\<close>

definition isArray :: "json \<Rightarrow> bool" where
  "isArray v = (case v of JArr _ \<Rightarrow> True | _ \<Rightarrow> False)"

definition JSON_parse :: "(string \<Rightarrow> json option) \<Rightarrow> json \<Rightarrow> json option" where
  "JSON_parse parse v = (case ToString v of Inl _ \<Rightarrow> None | Inr s \<Rightarrow> parse s)"

text \<open>
  In the \<^verbatim>\<open>catch\<close> block the message is built with \<^verbatim>\<open>data.trim()\<close>:
  a string has the method, every other value makes the call itself throw a TypeError,
  which leaves \<^verbatim>\<open>ensureArrayData\<close> in place of the descriptive error.
\<close>

definition ensureArrayData ::
  "(string \<Rightarrow> json option) \<Rightarrow> string \<Rightarrow> json \<Rightarrow> js_error + json" where
  "ensureArrayData parse url data =
     (if \<not> isArray data then
        (case JSON_parse parse data of
           Some v \<Rightarrow> Inr v
         | None \<Rightarrow>
             (case data of
                JStr s \<Rightarrow>
                  Inl (Error (''Failed to fetch '' @ url @ newline @
                              ''Expected JSON response but got:'' @ newline @
                              substring0 150 (trim s) @ ''...'' @ newline))
              | _ \<Rightarrow> Inl TypeError))
      else Inr data)"

section \<open>Paged Fetcher: fetchPaged\<close>

subsection \<open>The HTTP client and the query string\<close>

text \<open>
  A response of \<^verbatim>\<open>axios.get\<close>: its headers (a name that is absent reads as
  \<^verbatim>\<open>undefined\<close>) and its body. The client itself is a parameter
  \<open>get\<close> of type \<open>string \<Rightarrow> js_error + response\<close>: \<open>Inl\<close> when the
  request fails.
\<close>

record response =
  headers :: "string \<Rightarrow> string option"
  data :: json

text \<open>
  \<^verbatim>\<open>parseInt(h, 10)\<close>: leading white space is skipped, then an optional sign, then
  the longest run of decimal digits; with no digit the result is \<^verbatim>\<open>NaN\<close>,
  here \<open>None\<close>. An absent header is converted to the string \<^verbatim>\<open>undefined\<close>.
\<close>

definition is_digit :: "char \<Rightarrow> bool" where
  "is_digit c = (48 \<le> (of_char c :: nat) \<and> (of_char c :: nat) \<le> 57)"

definition read_nat :: "string \<Rightarrow> nat" where
  "read_nat ds = foldl (\<lambda>a c. 10 * a + (of_char c - 48)) 0 ds"

definition parseInt10 :: "string \<Rightarrow> int option" where
  "parseInt10 s =
     (let t = dropWhile is_space s;
          neg = (t \<noteq> [] \<and> hd t = CHR ''-'');
          u = (if t \<noteq> [] \<and> (hd t = CHR ''-'' \<or> hd t = CHR ''+'') then tl t else t);
          ds = takeWhile is_digit u
      in if ds = [] then None
         else Some (if neg then - int (read_nat ds) else int (read_nat ds)))"

definition parseInt :: "string option \<Rightarrow> int option" where
  "parseInt h = parseInt10 (case h of None \<Rightarrow> ''undefined'' | Some s \<Rightarrow> s)"

text \<open>
  \<^verbatim>\<open>querystring.stringify\<close> on an object whose keys need no escaping and whose
  values are numbers.
\<close>

fun stringify :: "(string \<times> int) list \<Rightarrow> string" where
  "stringify [] = []"
| "stringify [(k, v)] = k @ ''='' @ show_int v"
| "stringify ((k, v) # kv # kvs) = k @ ''='' @ show_int v @ ''&'' @ stringify (kv # kvs)"

record options =
  perPage :: int
  concurrent :: int

definition first_url :: "string \<Rightarrow> options \<Rightarrow> string" where
  "first_url url opts = url @ ''?'' @ stringify [(''per_page'', perPage opts)]"

definition page_url :: "string \<Rightarrow> options \<Rightarrow> int \<Rightarrow> string" where
  "page_url url opts page =
     url @ ''?'' @ stringify [(''per_page'', perPage opts), (''page'', page)]"

text \<open>
  The loop \<^verbatim>\<open>for (let page = 2; page <= totalPages; page++)\<close> pushes one task
  per page; a comparison with \<^verbatim>\<open>NaN\<close> is false, so no task is pushed then.
\<close>

definition page_tasks :: "string \<Rightarrow> options \<Rightarrow> int option \<Rightarrow> string list" where
  "page_tasks url opts totalPages =
     (case totalPages of
        None \<Rightarrow> []
      | Some t \<Rightarrow> map (page_url url opts) [2..t])"

subsection \<open>The promise and the queue's events\<close>

text \<open>
  A promise settles once: \<^verbatim>\<open>resolve\<close> and \<^verbatim>\<open>reject\<close> on a settled
  promise do nothing. The state of one multi-page fetch is the promise, the accumulator
  \<^verbatim>\<open>res.data\<close>, and whether \<^verbatim>\<open>queue.destroy()\<close> has been called.
\<close>

datatype promise = Pending | Resolved json | Rejected js_error

record fetch_state =
  promise :: promise
  res_data :: json
  destroyed :: bool

definition resolve :: "json \<Rightarrow> fetch_state \<Rightarrow> fetch_state" where
  "resolve v st = (if promise st = Pending then st\<lparr>promise := Resolved v\<rparr> else st)"

definition reject :: "js_error \<Rightarrow> fetch_state \<Rightarrow> fetch_state" where
  "reject e st = (if promise st = Pending then st\<lparr>promise := Rejected e\<rparr> else st)"

text \<open>
  The queue (the library \<^verbatim>\<open>better-queue\<close>) is the environment: it decides
  which tasks run and when, and reports through three events. \<open>TaskFailed id err\<close>
  carries the task id and the error as the template literal renders it;
  \<open>TaskFinish id res\<close> carries the response the task handler passed on.
\<close>

datatype queue_event =
    TaskFailed string string
  | TaskFinish string response
  | Drain

text \<open>
  The task handler requests the URL that is the task's id and hands the response, or the
  error, to the queue's callback.
\<close>

definition taskHandler :: "(string \<Rightarrow> js_error + response) \<Rightarrow> string \<Rightarrow> js_error + response" where
  "taskHandler get task_id = (case get task_id of Inr res \<Rightarrow> Inr res | Inl err \<Rightarrow> Inl err)"

text \<open>
  Spreading a value into the arguments of \<^verbatim>\<open>push\<close>: an array gives its
  elements, a string its characters, anything else is not iterable.
\<close>

definition spread :: "json \<Rightarrow> js_error + json list" where
  "spread v =
     (case v of
        JArr xs \<Rightarrow> Inr xs
      | JStr s \<Rightarrow> Inr (map (\<lambda>c. JStr [c]) s)
      | _ \<Rightarrow> Inl TypeError)"

text \<open>
  \<^verbatim>\<open>res.data.push(...ensureArrayData(id, data))\<close> inside \<^verbatim>\<open>try\<close>:
  reading \<^verbatim>\<open>push\<close> from \<^verbatim>\<open>null\<close> throws before the arguments are
  evaluated; a value other than an array has no callable \<^verbatim>\<open>push\<close>, which
  throws after they are. Every exception is caught and passed to \<^verbatim>\<open>reject\<close>.
\<close>

definition on_task_finish ::
  "(string \<Rightarrow> json option) \<Rightarrow> string \<Rightarrow> response \<Rightarrow> fetch_state \<Rightarrow> fetch_state" where
  "on_task_finish parse task_id result st =
     (if res_data st = JNull \<or> res_data st = JUndefined then reject TypeError st
      else
        (case ensureArrayData parse task_id (data result) of
           Inl err \<Rightarrow> reject err st
         | Inr v \<Rightarrow>
             (case spread v of
                Inl err \<Rightarrow> reject err st
              | Inr items \<Rightarrow>
                  (case res_data st of
                     JArr xs \<Rightarrow> st\<lparr>res_data := JArr (xs @ items)\<rparr>
                   | _ \<Rightarrow> reject TypeError st))))"

definition on_task_failed :: "string \<Rightarrow> string \<Rightarrow> fetch_state \<Rightarrow> fetch_state" where
  "on_task_failed task_id err st =
     (reject (Reason (task_id @ '' failed with error: '' @ err)) st)\<lparr>destroyed := True\<rparr>"

definition on_drain :: "fetch_state \<Rightarrow> fetch_state" where
  "on_drain st = resolve (res_data st) st"

definition on_event :: "(string \<Rightarrow> json option) \<Rightarrow> fetch_state \<Rightarrow> queue_event \<Rightarrow> fetch_state" where
  "on_event parse st ev =
     (case ev of
        TaskFailed task_id err \<Rightarrow> on_task_failed task_id err st
      | TaskFinish task_id result \<Rightarrow> on_task_finish parse task_id result st
      | Drain \<Rightarrow> on_drain st)"

definition run_events :: "(string \<Rightarrow> json option) \<Rightarrow> fetch_state \<Rightarrow> queue_event list \<Rightarrow> fetch_state" where
  "run_events parse st evs = foldl (on_event parse) st evs"

subsection \<open>fetchPaged\<close>

text \<open>
  \<open>fetchPaged_start\<close> is the executor up to the registration of the handlers, given
  the first response: either the promise is settled at once and no queue exists, or a
  queue has been created and the page tasks pushed.
\<close>

datatype started =
    Settled promise
  | Queued fetch_state "string list"

definition falsy_number :: "int option \<Rightarrow> bool" where
  "falsy_number n = (n = None \<or> n = Some 0)"

definition at_most_one :: "int option \<Rightarrow> bool" where
  "at_most_one n = (case n of None \<Rightarrow> False | Some t \<Rightarrow> t \<le> 1)"

definition fetchPaged_start ::
  "(string \<Rightarrow> json option) \<Rightarrow> string \<Rightarrow> options \<Rightarrow> response \<Rightarrow> started" where
  "fetchPaged_start parse url opts res =
     (let totalItems = parseInt (headers res ''x-wp-total'');
          totalPages = parseInt (headers res ''x-wp-totalpages'')
      in case ensureArrayData parse url (data res) of
           Inl err \<Rightarrow> Settled (Rejected err)
         | Inr d \<Rightarrow>
             if falsy_number totalItems \<or> at_most_one totalPages then Settled (Resolved d)
             else Queued \<lparr>promise = Pending, res_data = d, destroyed = False\<rparr>
                         (page_tasks url opts totalPages))"

text \<open>
  The executor is an \<^verbatim>\<open>async\<close> function and the first request is awaited
  outside any \<^verbatim>\<open>try\<close>: when it fails, the exception ends the executor, whose own
  promise nobody observes, and neither \<^verbatim>\<open>resolve\<close> nor \<^verbatim>\<open>reject\<close>
  of the returned promise is ever called. \<open>fetchPaged\<close> is the state of the returned
  promise once the queue has emitted the events \<open>evs\<close>.
\<close>

definition fetchPaged ::
  "(string \<Rightarrow> json option) \<Rightarrow> (string \<Rightarrow> js_error + response) \<Rightarrow>
   string \<Rightarrow> options \<Rightarrow> queue_event list \<Rightarrow> promise" where
  "fetchPaged parse get url opts evs =
     (case get (first_url url opts) of
        Inl err \<Rightarrow> Pending
      | Inr res \<Rightarrow>
          (case fetchPaged_start parse url opts res of
             Settled p \<Rightarrow> p
           | Queued st tasks \<Rightarrow> promise (run_events parse st evs)))"

section \<open>Schema Discovery and Graph Builder: apply\<close>

subsection \<open>Objects and properties\<close>

text \<open>
  The own properties of a value: those of an object are its entries; an array and a
  string have their indices and \<^verbatim>\<open>length\<close>; other values have none. The property
  names the plugin reads by name (\<^verbatim>\<open>type\<close>, \<^verbatim>\<open>id\<close>, \<^verbatim>\<open>title\<close>,
  \<^verbatim>\<open>rendered\<close>, ...) are not members of any built-in prototype, so reading one
  that is not an own property gives \<^verbatim>\<open>undefined\<close>; reading any property of
  \<^verbatim>\<open>null\<close> or \<^verbatim>\<open>undefined\<close> throws. An assignment
  \<^verbatim>\<open>obj[k] = v\<close> is \<open>AList.update\<close>: the entry is replaced in place or appended.
  Keys that name members of \<^verbatim>\<open>Object.prototype\<close> (such as
  \<^verbatim>\<open>__proto__\<close>) are outside the model, as is the rule that integer keys are
  enumerated first.
\<close>

fun own_prop :: "json \<Rightarrow> string \<Rightarrow> json option" where
  "own_prop (JObj kvs) k = map_of kvs k"
| "own_prop (JArr xs) k =
     map_of (zip (map show_nat [0..<length xs]) xs @ [(''length'', JNum (int (length xs)))]) k"
| "own_prop (JStr s) k =
     map_of (zip (map show_nat [0..<length s]) (map (\<lambda>c. JStr [c]) s) @
             [(''length'', JNum (int (length s)))]) k"
| "own_prop _ k = None"

definition get_prop :: "json \<Rightarrow> string \<Rightarrow> js_error + json" where
  "get_prop v k =
     (if v = JNull \<or> v = JUndefined then Inl TypeError
      else Inr (case own_prop v k of Some x \<Rightarrow> x | None \<Rightarrow> JUndefined))"

text \<open>The keys a \<^verbatim>\<open>for ... in\<close> loop visits.\<close>

fun for_in_keys :: "json \<Rightarrow> string list" where
  "for_in_keys (JObj kvs) = remdups (map fst kvs)"
| "for_in_keys (JArr xs) = map show_nat [0..<length xs]"
| "for_in_keys (JStr s) = map show_nat [0..<length s]"
| "for_in_keys _ = []"

fun truthy :: "json \<Rightarrow> bool" where
  "truthy JUndefined = False"
| "truthy JNull = False"
| "truthy (JBool b) = b"
| "truthy (JNum i) = (i \<noteq> 0)"
| "truthy (JStr s) = (s \<noteq> [])"
| "truthy (JArr xs) = True"
| "truthy (JObj kvs) = True"

subsection \<open>Stable identifiers\<close>

text \<open>
  \<^verbatim>\<open>makeUid\<close> belongs to the host store and is a parameter \<open>mk\<close>. The raw
  string is built by a template literal, which converts the id with ToString.
\<close>

definition makePostId :: "(string \<Rightarrow> string) \<Rightarrow> json \<Rightarrow> js_error + string" where
  "makePostId mk i = (case ToString i of Inl e \<Rightarrow> Inl e | Inr s \<Rightarrow> Inr (mk (''post-'' @ s)))"

definition makeTermId :: "(string \<Rightarrow> string) \<Rightarrow> json \<Rightarrow> js_error + string" where
  "makeTermId mk i = (case ToString i of Inl e \<Rightarrow> Inl e | Inr s \<Rightarrow> Inr (mk (''term-'' @ s)))"

subsection \<open>Nodes and the store\<close>

datatype node_date = NullDate | NewDate json

datatype node =
    PostNode (node_id: string) (node_title: json) (node_date: node_date) (node_slug: json)
             (node_content: json) (node_excerpt: json) (node_refs: "(string \<times> string list) list")
  | TermNode (node_id: string) (node_slug: json) (node_title: json) (node_count: json)

text \<open>The calls made on \<^verbatim>\<open>this.source\<close>, in order.\<close>

datatype store_call =
    AddType string json json
  | AddNode json node

text \<open>
  \<^verbatim>\<open>Array.prototype.map\<close> with a callback that may throw: the first exception
  ends the loop.
\<close>

fun map_throwing :: "('a \<Rightarrow> js_error + 'b) \<Rightarrow> 'a list \<Rightarrow> js_error + 'b list" where
  "map_throwing f [] = Inr []"
| "map_throwing f (x # xs) =
     (case f x of
        Inl e \<Rightarrow> Inl e
      | Inr y \<Rightarrow> (case map_throwing f xs of Inl e \<Rightarrow> Inl e | Inr ys \<Rightarrow> Inr (y # ys)))"

text \<open>
  \<^verbatim>\<open>post.hasOwnProperty(propName)\<close>: the method is found on the prototype unless
  the record has an own property of that name, which for JSON data is not callable.
\<close>

definition hasOwnProperty :: "json \<Rightarrow> json \<Rightarrow> js_error + bool" where
  "hasOwnProperty post propName =
     (if post = JNull \<or> post = JUndefined then Inl TypeError
      else if own_prop post ''hasOwnProperty'' \<noteq> None then Inl TypeError
      else (case ToString propName of
              Inl e \<Rightarrow> Inl e
            | Inr k \<Rightarrow> Inr (own_prop post k \<noteq> None)))"

text \<open>
  \<^verbatim>\<open>post[propName].map(id => makeTermId(id))\<close>, evaluated when the property is
  an own property of the record: only an array has \<^verbatim>\<open>map\<close>.
\<close>

definition term_ids :: "(string \<Rightarrow> string) \<Rightarrow> json \<Rightarrow> json \<Rightarrow> js_error + string list" where
  "term_ids mk post propName =
     (case ToString propName of
        Inl e \<Rightarrow> Inl e
      | Inr k \<Rightarrow>
          (case own_prop post k of
             Some (JArr ids) \<Rightarrow> map_throwing (makeTermId mk) ids
           | _ \<Rightarrow> Inl TypeError))"

text \<open>
  One round of the loop
  \<^verbatim>\<open>for (const typeName in restBases.taxonomies)\<close> that fills
  \<^verbatim>\<open>refs\<close>; an exception leaves the loop.
\<close>

definition lookup :: "(string \<times> json) list \<Rightarrow> string \<Rightarrow> json" where
  "lookup obj k = (case map_of obj k of Some v \<Rightarrow> v | None \<Rightarrow> JUndefined)"

definition refs_step ::
  "(string \<Rightarrow> string) \<Rightarrow> (string \<times> json) list \<Rightarrow> json \<Rightarrow>
   js_error + (string \<times> string list) list \<Rightarrow> string \<Rightarrow> js_error + (string \<times> string list) list" where
  "refs_step mk taxonomies post acc typeName =
     (case acc of
        Inl e \<Rightarrow> Inl e
      | Inr refs \<Rightarrow>
          (let propName = lookup taxonomies typeName
           in case hasOwnProperty post propName of
                Inl e \<Rightarrow> Inl e
              | Inr False \<Rightarrow> Inr refs
              | Inr True \<Rightarrow>
                  (case term_ids mk post propName of
                     Inl e \<Rightarrow> Inl e
                   | Inr ids \<Rightarrow> Inr (AList.update typeName ids refs))))"

definition build_refs ::
  "(string \<Rightarrow> string) \<Rightarrow> (string \<times> json) list \<Rightarrow> json \<Rightarrow> js_error + (string \<times> string list) list" where
  "build_refs mk taxonomies post =
     foldl (refs_step mk taxonomies post) (Inr []) (for_in_keys (JObj taxonomies))"

text \<open>\<^verbatim>\<open>post.title ? post.title.rendered : ''\<close> and its siblings.\<close>

definition rendered :: "json \<Rightarrow> string \<Rightarrow> js_error + json" where
  "rendered post k =
     (case get_prop post k of
        Inl e \<Rightarrow> Inl e
      | Inr v \<Rightarrow> if truthy v then get_prop v ''rendered'' else Inr (JStr []))"

text \<open>
  \<^verbatim>\<open>post.date ? new Date(post.date) : null\<close>. The constructor converts an
  object or an array to a primitive first: \<^verbatim>\<open>valueOf\<close> of the prototype gives
  back the object, so the conversion ends in \<^verbatim>\<open>toString\<close> and throws a
  TypeError exactly when ToString does. The date itself is kept as the value it is
  constructed from.
\<close>

definition new_Date :: "json \<Rightarrow> js_error + node_date" where
  "new_Date v = (case ToString v of Inl e \<Rightarrow> Inl e | Inr s \<Rightarrow> Inr (NewDate v))"

definition date_of :: "json \<Rightarrow> js_error + node_date" where
  "date_of post =
     (case get_prop post ''date'' of
        Inl e \<Rightarrow> Inl e
      | Inr v \<Rightarrow> if truthy v then new_Date v else Inr NullDate)"

text \<open>
  The body of the loop over the fetched posts: the arguments of the one
  \<^verbatim>\<open>addNode\<close> call, or the exception thrown before it.
\<close>

definition post_call ::
  "(string \<Rightarrow> string) \<Rightarrow> (string \<times> json) list \<Rightarrow> json \<Rightarrow> js_error + store_call" where
  "post_call mk taxonomies post =
     (case build_refs mk taxonomies post of
        Inl e \<Rightarrow> Inl e
      | Inr refs \<Rightarrow>
     (case get_prop post ''type'' of
        Inl e \<Rightarrow> Inl e
      | Inr ty \<Rightarrow>
     (case get_prop post ''id'' of
        Inl e \<Rightarrow> Inl e
      | Inr i \<Rightarrow>
     (case makePostId mk i of
        Inl e \<Rightarrow> Inl e
      | Inr uid \<Rightarrow>
     (case rendered post ''title'' of
        Inl e \<Rightarrow> Inl e
      | Inr ti \<Rightarrow>
     (case date_of post of
        Inl e \<Rightarrow> Inl e
      | Inr d \<Rightarrow>
     (case get_prop post ''slug'' of
        Inl e \<Rightarrow> Inl e
      | Inr sl \<Rightarrow>
     (case rendered post ''content'' of
        Inl e \<Rightarrow> Inl e
      | Inr co \<Rightarrow>
     (case rendered post ''excerpt'' of
        Inl e \<Rightarrow> Inl e
      | Inr ex \<Rightarrow> Inr (AddNode ty (PostNode uid ti d sl co ex refs)))))))))))"

definition term_call :: "(string \<Rightarrow> string) \<Rightarrow> json \<Rightarrow> js_error + store_call" where
  "term_call mk term =
     (case get_prop term ''taxonomy'' of
        Inl e \<Rightarrow> Inl e
      | Inr ty \<Rightarrow>
     (case get_prop term ''id'' of
        Inl e \<Rightarrow> Inl e
      | Inr i \<Rightarrow>
     (case makeTermId mk i of
        Inl e \<Rightarrow> Inl e
      | Inr uid \<Rightarrow>
     (case get_prop term ''slug'' of
        Inl e \<Rightarrow> Inl e
      | Inr sl \<Rightarrow>
     (case get_prop term ''name'' of
        Inl e \<Rightarrow> Inl e
      | Inr nm \<Rightarrow>
     (case get_prop term ''count'' of
        Inl e \<Rightarrow> Inl e
      | Inr c \<Rightarrow> Inr (AddNode ty (TermNode uid sl nm c))))))))"

subsection \<open>The run\<close>

text \<open>
  The options of the plugin, and the environment of a run: the HTTP client, the JSON
  parser, the store's \<^verbatim>\<open>makeUid\<close>, and for each endpoint the events that the
  queue created for it emits.
\<close>

record plugin_options = options +
  baseUrl :: string
  routes :: "(string \<times> json) list"

record env =
  axios_get :: "string \<Rightarrow> js_error + response"
  json_parse :: "string \<Rightarrow> json option"
  makeUid :: "string \<Rightarrow> string"
  queue_events :: "string \<Rightarrow> queue_event list"

text \<open>
  \<^verbatim>\<open>apply\<close> is an \<^verbatim>\<open>async\<close> method: it ends normally, or rejects with an
  exception, or never ends because it awaits a promise that never settles. The calls
  already made on the store stay made. The state of a run is its status,
  \<^verbatim>\<open>restBases\<close>, and the calls so far; once the status is not \<open>Ok\<close>
  nothing more happens.
\<close>

datatype status = Ok | Failed js_error | Hung

record run_state =
  status :: status
  restBases_posts :: "(string \<times> json) list"
  restBases_taxonomies :: "(string \<times> json) list"
  calls :: "store_call list"

definition default_routes :: "(string \<times> json) list" where
  "default_routes =
     [(''post'', JStr ''/:year/:month/:day/:slug''),
      (''post_tag'', JStr ''/tag/:slug''),
      (''category'', JStr ''/category/:slug'')]"

text \<open>The object literal with the spread of the configured routes last.\<close>

definition merged_routes :: "(string \<times> json) list \<Rightarrow> (string \<times> json) list" where
  "merged_routes rs =
     foldl (\<lambda>acc k. AList.update k (lookup rs k) acc) default_routes (for_in_keys (JObj rs))"

text \<open>
  The bodies of the two discovery loops. \<^verbatim>\<open>options.rest_base\<close> throws when the
  entry is \<^verbatim>\<open>null\<close>.
\<close>

definition type_step :: "(string \<times> json) list \<Rightarrow> json \<Rightarrow> run_state \<Rightarrow> string \<Rightarrow> run_state" where
  "type_step rts types st typeName =
     (if status st \<noteq> Ok then st
      else
        (let opts = (case own_prop types typeName of Some v \<Rightarrow> v | None \<Rightarrow> JUndefined)
         in if typeName = ''attachment'' then st
            else
              (case get_prop opts ''rest_base'' of
                 Inl e \<Rightarrow> st\<lparr>status := Failed e\<rparr>
               | Inr rb \<Rightarrow>
                   (case get_prop opts ''name'' of
                      Inl e \<Rightarrow> st\<lparr>status := Failed e\<rparr>
                    | Inr nm \<Rightarrow>
                        st\<lparr>restBases_posts := AList.update typeName rb (restBases_posts st),
                           calls := calls st @ [AddType typeName nm (lookup rts typeName)]\<rparr>))))"

definition taxonomy_step :: "(string \<times> json) list \<Rightarrow> json \<Rightarrow> run_state \<Rightarrow> string \<Rightarrow> run_state" where
  "taxonomy_step rts taxonomies st typeName =
     (if status st \<noteq> Ok then st
      else
        (let opts = (case own_prop taxonomies typeName of Some v \<Rightarrow> v | None \<Rightarrow> JUndefined)
         in case get_prop opts ''rest_base'' of
              Inl e \<Rightarrow> st\<lparr>status := Failed e\<rparr>
            | Inr rb \<Rightarrow>
                (case get_prop opts ''name'' of
                   Inl e \<Rightarrow> st\<lparr>status := Failed e\<rparr>
                 | Inr nm \<Rightarrow>
                     st\<lparr>restBases_taxonomies := AList.update typeName rb (restBases_taxonomies st),
                        calls := calls st @ [AddType typeName nm (lookup rts typeName)]\<rparr>)))"

text \<open>The loops over the fetched records: one \<^verbatim>\<open>addNode\<close> per record.\<close>

definition add_call :: "(json \<Rightarrow> js_error + store_call) \<Rightarrow> run_state \<Rightarrow> json \<Rightarrow> run_state" where
  "add_call build st record =
     (if status st \<noteq> Ok then st
      else (case build record of
              Inl e \<Rightarrow> st\<lparr>status := Failed e\<rparr>
            | Inr c \<Rightarrow> st\<lparr>calls := calls st @ [c]\<rparr>))"

text \<open>
  \<^verbatim>\<open>await fetchPaged(endpoint, { perPage, concurrent })\<close> followed by the loop
  \<^verbatim>\<open>for (const record of records)\<close>, which throws when the value is not iterable.
\<close>

definition fetch_and_add ::
  "env \<Rightarrow> options \<Rightarrow> string \<Rightarrow> (json \<Rightarrow> js_error + store_call) \<Rightarrow>
   (string \<times> json) list \<Rightarrow> run_state \<Rightarrow> string \<Rightarrow> run_state" where
  "fetch_and_add ev opts restUrl build bases st typeName =
     (if status st \<noteq> Ok then st
      else
        (case ToString (lookup bases typeName) of
           Inl e \<Rightarrow> st\<lparr>status := Failed e\<rparr>
         | Inr restBase \<Rightarrow>
             (let endpoint = restUrl @ ''/'' @ restBase
              in case fetchPaged (json_parse ev) (axios_get ev) endpoint opts
                        (queue_events ev endpoint) of
                   Pending \<Rightarrow> st\<lparr>status := Hung\<rparr>
                 | Rejected e \<Rightarrow> st\<lparr>status := Failed e\<rparr>
                 | Resolved records \<Rightarrow>
                     (case spread records of
                        Inl e \<Rightarrow> st\<lparr>status := Failed e\<rparr>
                      | Inr rs \<Rightarrow> foldl (add_call build) st rs))))"

definition strip_slashes :: "string \<Rightarrow> string" where
  "strip_slashes s = rev (dropWhile (\<lambda>c. c = CHR ''/'') (rev s))"

definition discover :: "(string \<times> json) list \<Rightarrow> json \<Rightarrow> json \<Rightarrow> run_state" where
  "discover rts types taxonomies =
     foldl (taxonomy_step rts taxonomies)
       (foldl (type_step rts types)
          \<lparr>status = Ok, restBases_posts = [], restBases_taxonomies = [], calls = []\<rparr>
          (for_in_keys types))
       (for_in_keys taxonomies)"

definition build_graph :: "env \<Rightarrow> options \<Rightarrow> string \<Rightarrow> run_state \<Rightarrow> run_state" where
  "build_graph ev opts restUrl st =
     (let st1 = foldl (fetch_and_add ev opts restUrl
                         (post_call (makeUid ev) (restBases_taxonomies st)) (restBases_posts st))
                  st (for_in_keys (JObj (restBases_posts st)))
      in foldl (fetch_and_add ev opts restUrl (term_call (makeUid ev)) (restBases_taxonomies st))
           st1 (for_in_keys (JObj (restBases_taxonomies st))))"

definition apply_source :: "env \<Rightarrow> plugin_options \<Rightarrow> run_state" where
  "apply_source ev popts =
     (let restUrl = strip_slashes (baseUrl popts) @ ''/wp-json/wp/v2'';
          failed = (\<lambda>e. \<lparr>status = Failed e, restBases_posts = [], restBases_taxonomies = [],
                         calls = []\<rparr>)
      in case axios_get ev restUrl of
           Inl err \<Rightarrow> failed (Error (''Failed to fetch baseUrl '' @ baseUrl popts))
         | Inr root \<Rightarrow>
             (case axios_get ev (restUrl @ ''/types'') of
                Inl err \<Rightarrow> failed err
              | Inr types_res \<Rightarrow>
                  (case axios_get ev (restUrl @ ''/taxonomies'') of
                     Inl err \<Rightarrow> failed err
                   | Inr tax_res \<Rightarrow>
                       build_graph ev \<lparr>perPage = perPage popts, concurrent = concurrent popts\<rparr>
                         restUrl
                         (discover (merged_routes (routes popts)) (data types_res) (data tax_res)))))"

section \<open>Reordered queue events\<close>

text \<open>
  Two notions used to compare two runs over the same remote data. \<open>appended\<close> is
  what the \<^verbatim>\<open>task_finish\<close> handler appends for an event when it does not
  reject. \<open>same_events\<close> relates the event sequences that the queue may emit in two
  runs: the same sequence, or the same events in another order with the drain event last
  in both, as it is emitted once all tasks have finished.
\<close>

definition appended :: "(string \<Rightarrow> json option) \<Rightarrow> queue_event \<Rightarrow> json list option" where
  "appended parse ev =
     (case ev of
        TaskFinish task_id result \<Rightarrow>
          (case ensureArrayData parse task_id (data result) of
             Inl err \<Rightarrow> None
           | Inr v \<Rightarrow> (case spread v of Inl err \<Rightarrow> None | Inr items \<Rightarrow> Some items))
      | _ \<Rightarrow> None)"

definition same_events :: "queue_event list \<Rightarrow> queue_event list \<Rightarrow> bool" where
  "same_events es1 es2 =
     (es1 = es2 \<or>
      (es1 \<noteq> [] \<and> es2 \<noteq> [] \<and> last es1 = Drain \<and> last es2 = Drain \<and>
       Drain \<notin> set (butlast es1) \<and> mset (butlast es1) = mset (butlast es2)))"

section \<open>Example data\<close>

text \<open>
  Concrete inputs at which the theorems below are instantiated: an endpoint whose first
  page announces 250 items on 3 pages, a parser that rejects every text that occurs in the
  examples and is not JSON, an HTML error page served with status 200, a client whose
  requests all fail, and two first pages with other headers. Then a small site with one
  content type and one taxonomy, whose posts come on three pages, with the events of its
  queue in two orders; the record on the third page carries the type
  \<^verbatim>\<open>page\<close>. Last the same site with another third page, whose record holds
  its categories as the string \<^verbatim>\<open>3,7\<close> and not as an array.
\<close>

definition example_parse :: "string \<Rightarrow> json option" where
  "example_parse s = (if s = ''[]'' then Some (JArr []) else None)"

definition example_options :: options where
  "example_options = \<lparr>perPage = 100, concurrent = 10\<rparr>"

definition example_url :: string where
  "example_url = ''https://example.org/wp-json/wp/v2/posts''"

definition example_page :: "int \<Rightarrow> response" where
  "example_page n =
     \<lparr>headers = map_of [(''x-wp-total'', ''250''), (''x-wp-totalpages'', ''3'')],
      data = JArr [JObj [(''id'', JNum n), (''type'', JStr ''post'')]]\<rparr>"


definition example_get :: "string \<Rightarrow> js_error + response" where
  "example_get u = Inr (example_page 1)"

definition example_unreachable :: "string \<Rightarrow> js_error + response" where
  "example_unreachable u = Inl (HttpFailure ''Error: connect ECONNREFUSED'')"

definition example_no_total :: response where
  "example_no_total =
     \<lparr>headers = map_of [(''x-wp-totalpages'', ''3'')],
      data = JArr [JObj [(''id'', JNum 1)]]\<rparr>"

definition example_single :: response where
  "example_single =
     \<lparr>headers = map_of [(''x-wp-total'', ''1''), (''x-wp-totalpages'', ''1'')],
      data = JArr [JObj [(''id'', JNum 1)]]\<rparr>"

definition example_makeUid :: "string \<Rightarrow> string" where
  "example_makeUid s = ''uid:'' @ s"

definition example_taxonomies :: "(string \<times> json) list" where
  "example_taxonomies = [(''category'', JStr ''categories''), (''post_tag'', JStr ''tags'')]"

definition example_post :: json where
  "example_post =
     JObj [(''id'', JNum 42), (''type'', JStr ''post''), (''slug'', JStr ''hello''),
           (''title'', JObj [(''rendered'', JStr ''Hello'')]),
           (''categories'', JArr [JNum 3, JNum 7])]"

definition example_record :: "int \<Rightarrow> string \<Rightarrow> json" where
  "example_record n ty = JObj [(''id'', JNum n), (''type'', JStr ty), (''categories'', JArr [JNum 3])]"

definition example_paged :: "string \<Rightarrow> string \<Rightarrow> json list \<Rightarrow> response" where
  "example_paged n_items n_pages records =
     \<lparr>headers = map_of [(''x-wp-total'', n_items), (''x-wp-totalpages'', n_pages)],
      data = JArr records\<rparr>"

definition example_types :: json where
  "example_types = JObj [(''post'', JObj [(''name'', JStr ''Posts''), (''rest_base'', JStr ''posts'')])]"

definition example_taxonomy_list :: json where
  "example_taxonomy_list =
     JObj [(''category'', JObj [(''name'', JStr ''Categories''), (''rest_base'', JStr ''categories'')])]"

definition example_term :: json where
  "example_term =
     JObj [(''id'', JNum 3), (''taxonomy'', JStr ''category''), (''slug'', JStr ''news''),
           (''name'', JStr ''News''), (''count'', JNum 3)]"

definition example_pages :: "(string \<times> response) list" where
  "example_pages =
     [(''https://example.org/wp-json/wp/v2'', example_paged [] [] []),
      (''https://example.org/wp-json/wp/v2/types'', \<lparr>headers = map_of [], data = example_types\<rparr>),
      (''https://example.org/wp-json/wp/v2/taxonomies'',
         \<lparr>headers = map_of [], data = example_taxonomy_list\<rparr>),
      (''https://example.org/wp-json/wp/v2/posts?per_page=100'',
         example_paged ''3'' ''3'' [example_record 1 ''post'']),
      (''https://example.org/wp-json/wp/v2/posts?per_page=100&page=2'',
         example_paged ''3'' ''3'' [example_record 2 ''post'']),
      (''https://example.org/wp-json/wp/v2/posts?per_page=100&page=3'',
         example_paged ''3'' ''3'' [example_record 3 ''page'']),
      (''https://example.org/wp-json/wp/v2/categories?per_page=100'',
         example_paged ''1'' ''1'' [example_term])]"

definition example_site :: "string \<Rightarrow> js_error + response" where
  "example_site u =
     (case map_of example_pages u of
        Some r \<Rightarrow> Inr r
      | None \<Rightarrow> Inl (HttpFailure ''Error: Request failed with status code 404''))"

definition example_schedule :: "string \<Rightarrow> queue_event list" where
  "example_schedule u =
     [TaskFinish ''https://example.org/wp-json/wp/v2/posts?per_page=100&page=2''
        (example_paged ''3'' ''3'' [example_record 2 ''post'']),
      TaskFinish ''https://example.org/wp-json/wp/v2/posts?per_page=100&page=3''
        (example_paged ''3'' ''3'' [example_record 3 ''page'']),
      Drain]"

definition example_reordered :: "string \<Rightarrow> queue_event list" where
  "example_reordered u =
     [TaskFinish ''https://example.org/wp-json/wp/v2/posts?per_page=100&page=3''
        (example_paged ''3'' ''3'' [example_record 3 ''page'']),
      TaskFinish ''https://example.org/wp-json/wp/v2/posts?per_page=100&page=2''
        (example_paged ''3'' ''3'' [example_record 2 ''post'']),
      Drain]"

definition example_env :: env where
  "example_env =
     \<lparr>axios_get = example_site, json_parse = example_parse, makeUid = example_makeUid,
      queue_events = example_schedule\<rparr>"

definition example_plugin_options :: plugin_options where
  "example_plugin_options =
     \<lparr>perPage = 100, concurrent = 10, baseUrl = ''https://example.org/'', routes = []\<rparr>"

definition example_malformed_record :: json where
  "example_malformed_record =
     JObj [(''id'', JNum 3), (''type'', JStr ''post''), (''categories'', JStr ''3,7'')]"

definition example_malformed_pages :: "(string \<times> response) list" where
  "example_malformed_pages =
     (''https://example.org/wp-json/wp/v2/posts?per_page=100&page=3'',
        example_paged ''3'' ''3'' [example_malformed_record]) # example_pages"

definition example_malformed_site :: "string \<Rightarrow> js_error + response" where
  "example_malformed_site u =
     (case map_of example_malformed_pages u of
        Some r \<Rightarrow> Inr r
      | None \<Rightarrow> Inl (HttpFailure ''Error: Request failed with status code 404''))"

definition example_malformed_events :: "queue_event list" where
  "example_malformed_events =
     [TaskFinish ''https://example.org/wp-json/wp/v2/posts?per_page=100&page=2''
        (example_paged ''3'' ''3'' [example_record 2 ''post'']),
      TaskFinish ''https://example.org/wp-json/wp/v2/posts?per_page=100&page=3''
        (example_paged ''3'' ''3'' [example_malformed_record]),
      Drain]"

definition example_malformed_events_reordered :: "queue_event list" where
  "example_malformed_events_reordered =
     [TaskFinish ''https://example.org/wp-json/wp/v2/posts?per_page=100&page=3''
        (example_paged ''3'' ''3'' [example_malformed_record]),
      TaskFinish ''https://example.org/wp-json/wp/v2/posts?per_page=100&page=2''
        (example_paged ''3'' ''3'' [example_record 2 ''post'']),
      Drain]"

definition example_malformed_schedule :: "string \<Rightarrow> queue_event list" where
  "example_malformed_schedule u = example_malformed_events"

definition example_malformed_reschedule :: "string \<Rightarrow> queue_event list" where
  "example_malformed_reschedule u = example_malformed_events_reordered"

definition example_malformed_env :: env where
  "example_malformed_env =
     \<lparr>axios_get = example_malformed_site, json_parse = example_parse,
      makeUid = example_makeUid, queue_events = example_malformed_schedule\<rparr>"

definition example_malformed_env_reordered :: env where
  "example_malformed_env_reordered =
     \<lparr>axios_get = example_malformed_site, json_parse = example_parse,
      makeUid = example_makeUid, queue_events = example_malformed_reschedule\<rparr>"

section \<open>Properties\<close>

declare show_nat.simps [simp del]

subsection \<open>Decimal rendering is injective\<close>

text \<open>
  The queue merges tasks that carry the same id, so that one task per page needs the page
  URLs to be pairwise different; they are, because the decimal rendering of a number can be
  read back.
\<close>

lemma of_char_digit: "d < 10 \<Longrightarrow> of_char (digit_char d) = (48 + d :: nat)"
  by (simp add: digit_char_def)

lemma read_nat_snoc: "read_nat (ds @ [c]) = 10 * read_nat ds + (of_char c - 48)"
  by (simp add: read_nat_def)

lemma read_show_nat: "read_nat (show_nat n) = n"
proof (induction n rule: show_nat.induct)
  case (1 n)
  show ?case
  proof (cases "n < 10")
    case True
    then show ?thesis by (simp add: show_nat.simps[of n] read_nat_def of_char_digit)
  next
    case False
    with 1 show ?thesis
      by (simp add: show_nat.simps[of n] read_nat_snoc of_char_digit)
  qed
qed

lemma show_nat_inject: "show_nat m = show_nat n \<longleftrightarrow> m = n"
  by (metis read_show_nat)

lemma show_int_nonneg_inject:
  "0 \<le> i \<Longrightarrow> 0 \<le> j \<Longrightarrow> show_int i = show_int j \<longleftrightarrow> i = j"
  by (simp add: show_int_def show_nat_inject eq_nat_nat_iff)

lemma page_url_inject:
  "0 \<le> i \<Longrightarrow> 0 \<le> j \<Longrightarrow> page_url url opts i = page_url url opts j \<longleftrightarrow> i = j"
  by (simp add: page_url_def show_int_nonneg_inject)

lemma distinct_page_urls: "distinct (map (page_url url opts) [2..t])"
proof -
  have "inj_on (page_url url opts) (set [2..t])"
    by (rule inj_onI) (simp add: page_url_inject)
  then show ?thesis by (simp add: distinct_map)
qed

lemma page_url_shape:
  "page_url url opts p = url @ ''?per_page='' @ show_int (perPage opts) @ ''&page='' @ show_int p"
  by (simp add: page_url_def)

subsection \<open>The promise settles once\<close>

lemma promise_reject: "promise (reject e st) = (if promise st = Pending then Rejected e else promise st)"
  by (simp add: reject_def)

lemma promise_resolve: "promise (resolve v st) = (if promise st = Pending then Resolved v else promise st)"
  by (simp add: resolve_def)

lemma destroyed_reject [simp]: "destroyed (reject e st) = destroyed st"
  by (simp add: reject_def)

lemma destroyed_resolve [simp]: "destroyed (resolve e st) = destroyed st"
  by (simp add: resolve_def)

lemma settled_on_event:
  "promise st \<noteq> Pending \<Longrightarrow> promise (on_event parse st ev) = promise st"
  by (cases ev)
     (auto simp: on_event_def on_task_failed_def on_task_finish_def on_drain_def
        promise_reject promise_resolve split: sum.splits json.splits)

lemma settled_run_events:
  "promise st \<noteq> Pending \<Longrightarrow> promise (run_events parse st evs) = promise st"
  unfolding run_events_def
  by (induction evs arbitrary: st) (simp_all add: settled_on_event)

lemma destroyed_on_event_mono:
  "destroyed st \<Longrightarrow> destroyed (on_event parse st ev)"
  by (cases ev)
     (auto simp: on_event_def on_task_failed_def on_task_finish_def on_drain_def
        split: sum.splits json.splits)

lemma destroyed_run_events_mono:
  "destroyed st \<Longrightarrow> destroyed (run_events parse st evs)"
  unfolding run_events_def
  by (induction evs arbitrary: st) (simp_all add: destroyed_on_event_mono)

lemma not_resolved_on_event:
  "ev \<noteq> Drain \<Longrightarrow> promise st = Pending \<Longrightarrow>
   promise (on_event parse st ev) = Pending \<or> (\<exists>e. promise (on_event parse st ev) = Rejected e)"
  by (cases ev)
     (auto simp: on_event_def on_task_failed_def on_task_finish_def
        promise_reject split: sum.splits json.splits)

lemma not_resolved_run_events:
  "Drain \<notin> set evs \<Longrightarrow> promise st = Pending \<Longrightarrow>
   promise (run_events parse st evs) = Pending \<or> (\<exists>e. promise (run_events parse st evs) = Rejected e)"
proof (induction evs arbitrary: st)
  case Nil
  then show ?case by (simp add: run_events_def)
next
  case (Cons ev evs)
  from Cons.prems have ev: "ev \<noteq> Drain" and rest: "Drain \<notin> set evs" by auto
  have step: "run_events parse st (ev # evs) = run_events parse (on_event parse st ev) evs"
    by (simp add: run_events_def)
  from not_resolved_on_event[OF ev Cons.prems(2), of parse]
  show ?case
  proof
    assume "promise (on_event parse st ev) = Pending"
    from Cons.IH[OF rest this] show ?thesis by (simp add: step)
  next
    assume "\<exists>e. promise (on_event parse st ev) = Rejected e"
    then obtain e where e: "promise (on_event parse st ev) = Rejected e" ..
    then have "promise (run_events parse (on_event parse st ev) evs) = Rejected e"
      by (simp add: settled_run_events)
    then show ?thesis by (simp add: step)
  qed
qed

lemma run_events_append:
  "run_events parse st (xs @ ys) = run_events parse (run_events parse st xs) ys"
  by (simp add: run_events_def)

lemma run_events_Cons:
  "run_events parse st (x # ys) = run_events parse (on_event parse st x) ys"
  by (simp add: run_events_def)

lemma ex_start:
  "fetchPaged_start example_parse example_url example_options (example_page 1) =
     Queued \<lparr>promise = Pending, res_data = JArr [JObj [(''id'', JNum 1), (''type'', JStr ''post'')]], destroyed = False\<rparr>
       [''https://example.org/wp-json/wp/v2/posts?per_page=100&page=2'',
        ''https://example.org/wp-json/wp/v2/posts?per_page=100&page=3'']"
  by code_simp

subsection \<open>Response Normalizer\<close>

lemma ensureArrayData_array: "ensureArrayData parse url (JArr xs) = Inr (JArr xs)"
  by (simp add: ensureArrayData_def isArray_def)

lemma ensureArrayData_text:
  assumes "parse s = None"
  shows "ensureArrayData parse url (JStr s) =
           Inl (Error (''Failed to fetch '' @ url @ newline @ ''Expected JSON response but got:'' @
                       newline @ take 150 (trim s) @ ''...'' @ newline))"
  using assms by (simp add: ensureArrayData_def isArray_def JSON_parse_def substring0_def)

lemma preview_length: "length (substring0 150 (trim s)) \<le> 150"
  by (simp add: substring0_def)

lemma ensureArrayData_html:
  "ensureArrayData example_parse example_url (JStr ''<html>Error</html>'') =
     Inl (Error (''Failed to fetch '' @ example_url @ newline @ ''Expected JSON response but got:'' @
                 newline @ ''<html>Error</html>'' @ ''...'' @ newline))"
  by (simp add: ensureArrayData_text example_parse_def) code_simp

text \<open>
  Claim C4. The claim: for every source identifier and body, \<open>ensureArrayData\<close>
  returns a sequence as it is, and otherwise fails, when the body does not parse, with the
  descriptive error that carries the identifier and a preview of at most 150 characters.
  The lemmas above confirm this for a sequence and for a text
  (\<open>ensureArrayData_array\<close>, \<open>ensureArrayData_text\<close>, \<open>preview_length\<close>,
  \<open>ensureArrayData_html\<close>). It fails for a body that is neither: the HTTP client
  delivers a JSON object as an object, \<^verbatim>\<open>JSON.parse\<close> rejects its rendering
  \<^verbatim>\<open>[object Object]\<close>, and the \<^verbatim>\<open>catch\<close> block calls
  \<^verbatim>\<open>data.trim()\<close> on the object. The function then throws a TypeError that
  carries neither the source identifier nor a preview.
\<close>

theorem ensureArrayData_not_text:
  assumes "parse ''[object Object]'' = None"
  shows "ensureArrayData parse url (JObj kvs) = Inl TypeError"
  using assms by (simp add: ensureArrayData_def isArray_def JSON_parse_def)

theorem ensureArrayData_not_text_witness:
  "ensureArrayData example_parse example_url (JObj [(''message'', JStr ''maintenance'')]) = Inl TypeError"
  using ensureArrayData_not_text[of example_parse example_url "[(''message'', JStr ''maintenance'')]"]
  by (simp add: example_parse_def)

subsection \<open>Paged Fetcher\<close>

text \<open>
  Claim C2. The claim: when the first request fails, the operation is rejected with that
  error rather than hanging. In the code the first request is awaited outside any
  \<^verbatim>\<open>try\<close> inside the \<^verbatim>\<open>async\<close> executor, so the returned promise
  is never settled: it stays pending whatever happens afterwards.
\<close>

theorem fetchPaged_first_request_fails:
  assumes "get (first_url url opts) = Inl err"
  shows "fetchPaged parse get url opts evs = Pending"
  using assms by (simp add: fetchPaged_def)

theorem fetchPaged_first_request_fails_witness:
  "fetchPaged example_parse example_unreachable example_url example_options [] = Pending"
  using fetchPaged_first_request_fails[of example_unreachable example_url example_options]
  by (simp add: example_unreachable_def)

text \<open>
  Claim C3, as amended. For a first response whose body normalizes to \<open>d\<close>: when
  total-items is zero or absent, or total-pages is at most 1, no queue is created and the
  operation resolves with \<open>d\<close> after this one request; when total-items is a number
  other than zero and total-pages is \<open>t > 1\<close>, the tasks pushed are exactly the URLs
  of the pages 2 to \<open>t\<close>, each carrying \<^verbatim>\<open>per_page\<close> and \<^verbatim>\<open>page\<close>,
  pairwise different, \<open>t - 1\<close> of them, which with the first request makes \<open>t\<close>
  requests once every task has been run.
\<close>

theorem fetchPaged_page_requests:
  assumes "get (first_url url opts) = Inr res"
    and "ensureArrayData parse url (data res) = Inr d"
  shows "(falsy_number (parseInt (headers res ''x-wp-total'')) \<or>
          at_most_one (parseInt (headers res ''x-wp-totalpages'')) \<longrightarrow>
            fetchPaged_start parse url opts res = Settled (Resolved d) \<and>
            fetchPaged parse get url opts evs = Resolved d) \<and>
         (\<forall>n t. parseInt (headers res ''x-wp-total'') = Some n \<and> n \<noteq> 0 \<and>
                parseInt (headers res ''x-wp-totalpages'') = Some t \<and> 1 < t \<longrightarrow>
            fetchPaged_start parse url opts res =
              Queued \<lparr>promise = Pending, res_data = d, destroyed = False\<rparr>
                (map (\<lambda>p. url @ ''?per_page='' @ show_int (perPage opts) @ ''&page='' @ show_int p)
                   [2..t]) \<and>
            distinct (page_tasks url opts (Some t)) \<and>
            1 + int (length (page_tasks url opts (Some t))) = t)"
proof (intro conjI impI allI)
  assume c: "falsy_number (parseInt (headers res ''x-wp-total'')) \<or>
          at_most_one (parseInt (headers res ''x-wp-totalpages''))"
  then show s: "fetchPaged_start parse url opts res = Settled (Resolved d)"
    using assms(2) by (simp add: fetchPaged_start_def Let_def)
  show "fetchPaged parse get url opts evs = Resolved d"
    using assms(1) s by (simp add: fetchPaged_def)
next
  fix n t
  assume h: "parseInt (headers res ''x-wp-total'') = Some n \<and> n \<noteq> 0 \<and>
             parseInt (headers res ''x-wp-totalpages'') = Some t \<and> 1 < t"
  then show "fetchPaged_start parse url opts res =
              Queued \<lparr>promise = Pending, res_data = d, destroyed = False\<rparr>
                (map (\<lambda>p. url @ ''?per_page='' @ show_int (perPage opts) @ ''&page='' @ show_int p)
                   [2..t])"
    using assms(2)
    by (simp add: fetchPaged_start_def Let_def falsy_number_def at_most_one_def page_tasks_def
          page_url_def)
  show "distinct (page_tasks url opts (Some t))"
    by (simp add: page_tasks_def distinct_page_urls)
  from h show "1 + int (length (page_tasks url opts (Some t))) = t"
    by (simp add: page_tasks_def)
qed

lemma ex_single_norm:
  "ensureArrayData example_parse example_url (data example_single) = Inr (JArr [JObj [(''id'', JNum 1)]])"
  by (simp add: example_single_def ensureArrayData_array)

lemma ex_page_norm:
  "ensureArrayData example_parse example_url (data (example_page 1)) =
     Inr (JArr [JObj [(''id'', JNum 1), (''type'', JStr ''post'')]])"
  by (simp add: example_page_def ensureArrayData_array)

theorem fetchPaged_page_requests_witness:
  "fetchPaged example_parse (\<lambda>u. Inr example_single) example_url example_options [] =
     Resolved (JArr [JObj [(''id'', JNum 1)]]) \<and>
   fetchPaged_start example_parse example_url example_options (example_page 1) =
     Queued \<lparr>promise = Pending,
             res_data = JArr [JObj [(''id'', JNum 1), (''type'', JStr ''post'')]],
             destroyed = False\<rparr>
       [''https://example.org/wp-json/wp/v2/posts?per_page=100&page=2'',
        ''https://example.org/wp-json/wp/v2/posts?per_page=100&page=3''] \<and>
   1 + int (length (page_tasks example_url example_options (Some 3))) = 3"
proof -
  have a: "at_most_one (parseInt (headers example_single ''x-wp-totalpages''))"
    by code_simp
  have n: "parseInt (headers (example_page 1) ''x-wp-total'') = Some 250"
    by code_simp
  have t: "parseInt (headers (example_page 1) ''x-wp-totalpages'') = Some 3"
    by code_simp
  have u: "map (\<lambda>p. example_url @ ''?per_page='' @ show_int (perPage example_options) @ ''&page='' @ show_int p) [2..3]
      = [''https://example.org/wp-json/wp/v2/posts?per_page=100&page=2'',
        ''https://example.org/wp-json/wp/v2/posts?per_page=100&page=3'']"
    by code_simp
  have g1: "(\<lambda>u. Inr example_single) (first_url example_url example_options) = Inr example_single"
    by simp
  from fetchPaged_page_requests[where get = "\<lambda>u. Inr example_single" and evs = "[]", OF g1 ex_single_norm] a
  have first: "fetchPaged example_parse (\<lambda>u. Inr example_single) example_url example_options [] =
     Resolved (JArr [JObj [(''id'', JNum 1)]])"
    by blast
  have g2: "example_get (first_url example_url example_options) = Inr (example_page 1)"
    by (simp add: example_get_def)
  from fetchPaged_page_requests[where get = example_get and evs = "[]", OF g2 ex_page_norm] n t
  have "fetchPaged_start example_parse example_url example_options (example_page 1) =
              Queued \<lparr>promise = Pending, res_data = JArr [JObj [(''id'', JNum 1), (''type'', JStr ''post'')]], destroyed = False\<rparr>
                (map (\<lambda>p. example_url @ ''?per_page='' @ show_int (perPage example_options) @ ''&page='' @ show_int p)
                   [2..3]) \<and>
            1 + int (length (page_tasks example_url example_options (Some 3))) = 3"
    by simp
  with first u show ?thesis by simp
qed

text \<open>
  Claim C3 as stated promises the tasks for every endpoint that reports more than one
  page. An endpoint that reports 3 pages and no total-items header gets none: the guard
  \<^verbatim>\<open>!totalItems || totalPages <= 1\<close> resolves with page 1.
\<close>

theorem total_pages_without_total_items:
  "parseInt (headers example_no_total ''x-wp-totalpages'') = Some 3 \<and>
   fetchPaged_start example_parse example_url example_options example_no_total =
     Settled (Resolved (JArr [JObj [(''id'', JNum 1)]]))"
  by code_simp

text \<open>
  Claim C1. In a multi-page fetch, let a task fail after the events \<open>pre\<close>, which do
  not contain the terminal drain event. Then the operation is rejected and never resolved,
  whatever events follow; \<^verbatim>\<open>queue.destroy()\<close> has been called; and when nothing
  had failed before, the rejection is the one built from the id and the error of the
  failed task.
\<close>

theorem fetchPaged_task_failed:
  assumes "get (first_url url opts) = Inr res"
    and "fetchPaged_start parse url opts res = Queued st tasks"
    and "Drain \<notin> set pre"
  shows "\<exists>e. fetchPaged parse get url opts (pre @ TaskFailed task_id err # post) = Rejected e \<and>
             (promise (run_events parse st pre) = Pending \<longrightarrow>
                e = Reason (task_id @ '' failed with error: '' @ err)) \<and>
             destroyed (run_events parse st (pre @ TaskFailed task_id err # post))"
proof -
  let ?s1 = "run_events parse st pre"
  let ?s2 = "on_event parse ?s1 (TaskFailed task_id err)"
  have st: "promise st = Pending"
    using assms(2) by (auto simp: fetchPaged_start_def Let_def split: sum.splits if_splits)
  have final: "run_events parse st (pre @ TaskFailed task_id err # post) = run_events parse ?s2 post"
    by (simp add: run_events_append run_events_Cons)
  have fp: "fetchPaged parse get url opts (pre @ TaskFailed task_id err # post)
              = promise (run_events parse ?s2 post)"
    using assms(1,2) by (simp add: fetchPaged_def final)
  have d2: "destroyed ?s2" by (simp add: on_event_def on_task_failed_def)
  have dest: "destroyed (run_events parse ?s2 post)"
    by (rule destroyed_run_events_mono[OF d2])
  from not_resolved_run_events[OF assms(3) st, of parse]
  show ?thesis
  proof
    assume p: "promise ?s1 = Pending"
    then have "promise ?s2 = Rejected (Reason (task_id @ '' failed with error: '' @ err))"
      by (simp add: on_event_def on_task_failed_def promise_reject)
    then have "promise (run_events parse ?s2 post) = Rejected (Reason (task_id @ '' failed with error: '' @ err))"
      by (simp add: settled_run_events)
    with fp dest final show ?thesis by simp
  next
    assume "\<exists>e. promise ?s1 = Rejected e"
    then obtain e where e: "promise ?s1 = Rejected e" ..
    then have "promise ?s2 = Rejected e"
      by (simp add: settled_on_event)
    then have "promise (run_events parse ?s2 post) = Rejected e"
      by (simp add: settled_run_events)
    with fp dest final e show ?thesis by simp
  qed
qed

theorem fetchPaged_task_failed_witness:
  "fetchPaged example_parse example_get example_url example_options
     ([TaskFinish (page_url example_url example_options 2) (example_page 2)] @
      TaskFailed (page_url example_url example_options 3) ''Error: Request failed with status code 500'' #
      [Drain])
   = Rejected (Reason (page_url example_url example_options 3 @ '' failed with error: '' @
                       ''Error: Request failed with status code 500''))"
proof -
  have g: "example_get (first_url example_url example_options) = Inr (example_page 1)"
    by (simp add: example_get_def)
  have d: "Drain \<notin> set [TaskFinish (page_url example_url example_options 2) (example_page 2)]"
    by simp
  have p: "promise (run_events example_parse
             \<lparr>promise = Pending, res_data = JArr [JObj [(''id'', JNum 1), (''type'', JStr ''post'')]], destroyed = False\<rparr>
             [TaskFinish (page_url example_url example_options 2) (example_page 2)]) = Pending"
    by (simp add: run_events_def on_event_def on_task_finish_def ensureArrayData_def isArray_def
          example_page_def spread_def)
  from fetchPaged_task_failed[where get = example_get and post = "[Drain]"
          and task_id = "page_url example_url example_options 3"
          and err = "''Error: Request failed with status code 500''", OF g ex_start d] p
  show ?thesis by auto
qed










subsection \<open>Stable identifiers\<close>

text \<open>
  Claim C5. For remote numeric ids \<open>n\<close> and \<open>m\<close> (the same or not), the raw
  strings of the content item and of the term differ before \<^verbatim>\<open>makeUid\<close> is
  applied, and the stable ids differ whenever \<^verbatim>\<open>makeUid\<close>, which belongs to
  the store, maps different strings to different ids.
\<close>

theorem namespaces_never_collide:
  "makePostId mk (JNum n) = Inr (mk (''post-'' @ show_int n)) \<and>
   makeTermId mk (JNum m) = Inr (mk (''term-'' @ show_int m)) \<and>
   ''post-'' @ show_int n \<noteq> ''term-'' @ show_int m \<and>
   (inj mk \<longrightarrow> makePostId mk (JNum n) \<noteq> makeTermId mk (JNum m))"
proof -
  have raw: "''post-'' @ show_int n \<noteq> ''term-'' @ show_int m"
    by simp
  have pid: "makePostId mk (JNum n) = Inr (mk (''post-'' @ show_int n))"
    by (simp add: makePostId_def)
  have tid: "makeTermId mk (JNum m) = Inr (mk (''term-'' @ show_int m))"
    by (simp add: makeTermId_def)
  have "makePostId mk (JNum n) \<noteq> makeTermId mk (JNum m)" if "inj mk"
  proof
    assume "makePostId mk (JNum n) = makeTermId mk (JNum m)"
    then have "mk (''post-'' @ show_int n) = mk (''term-'' @ show_int m)"
      by (simp add: pid tid)
    with that have "''post-'' @ show_int n = ''term-'' @ show_int m"
      by (rule injD)
    with raw show False by contradiction
  qed
  with raw pid tid show ?thesis by simp
qed

theorem namespaces_never_collide_witness:
  "inj (\<lambda>s :: string. s) \<and> makePostId (\<lambda>s. s) (JNum 7) = Inr ''post-7'' \<and>
   makeTermId (\<lambda>s. s) (JNum 7) = Inr ''term-7'' \<and>
   makePostId (\<lambda>s. s) (JNum 7) \<noteq> makeTermId (\<lambda>s. s) (JNum 7)"
proof -
  have s7: "show_int 7 = ''7''" by code_simp
  show ?thesis
    using namespaces_never_collide[of "\<lambda>s. s" 7 7] by (simp add: s7)
qed

subsection \<open>Taxonomy references\<close>

text \<open>
  The loop that fills \<^verbatim>\<open>refs\<close> is followed round by round: a key that the
  loop has not visited keeps its entry, a visited key whose property is absent keeps its
  entry too, and a visited key whose property is present is mapped to the stable ids of
  the listed terms.
\<close>

lemma refs_fold_Inl: "foldl (refs_step mk tx post) (Inl e) ks = Inl e"
  by (induction ks) (simp_all add: refs_step_def)

lemma hasOwnProperty_Inr:
  assumes "hasOwnProperty post pn = Inr b"
  shows "\<exists>p. ToString pn = Inr p \<and> b = (own_prop post p \<noteq> None)"
proof (cases "ToString pn")
  case (Inl e)
  with assms show ?thesis by (simp add: hasOwnProperty_def split: if_splits)
next
  case (Inr p)
  with assms have "b = (own_prop post p \<noteq> None)"
    by (simp add: hasOwnProperty_def split: if_splits)
  with Inr show ?thesis by simp
qed

lemma term_ids_Inr:
  assumes "term_ids mk post pn = Inr uids" and "ToString pn = Inr p"
  shows "\<exists>ids. own_prop post p = Some (JArr ids) \<and> map_throwing (makeTermId mk) ids = Inr uids"
proof (cases "own_prop post p")
  case None
  with assms show ?thesis by (simp add: term_ids_def)
next
  case (Some v)
  with assms show ?thesis by (cases v) (simp_all add: term_ids_def)
qed

lemma refs_step_Inr:
  assumes "refs_step mk tx post (Inr acc) k = Inr r"
  shows "\<exists>p. ToString (lookup tx k) = Inr p \<and>
           (own_prop post p = None \<longrightarrow> r = acc) \<and>
           (own_prop post p \<noteq> None \<longrightarrow>
              (\<exists>ids uids. own_prop post p = Some (JArr ids) \<and>
                 map_throwing (makeTermId mk) ids = Inr uids \<and> r = AList.update k uids acc))"
proof (cases "hasOwnProperty post (lookup tx k)")
  case (Inl e)
  with assms show ?thesis by (simp add: refs_step_def)
next
  case (Inr b)
  from hasOwnProperty_Inr[OF Inr] obtain p where p: "ToString (lookup tx k) = Inr p"
    and b: "b = (own_prop post p \<noteq> None)" by blast
  show ?thesis
  proof (cases b)
    case False
    with assms Inr have "r = acc" by (simp add: refs_step_def)
    with False b p show ?thesis by simp
  next
    case True
    show ?thesis
    proof (cases "term_ids mk post (lookup tx k)")
      case (Inl e)
      with assms Inr True show ?thesis by (simp add: refs_step_def)
    next
      case inr: (Inr uids)
      with assms Inr True have r: "r = AList.update k uids acc" by (simp add: refs_step_def)
      from term_ids_Inr[OF inr p] obtain ids where
        "own_prop post p = Some (JArr ids)" "map_throwing (makeTermId mk) ids = Inr uids" by blast
      with r p show ?thesis by simp
    qed
  qed
qed

lemma refs_fold_invariant:
  assumes "foldl (refs_step mk tx post) (Inr acc) ks = Inr refs"
  shows "(\<forall>k. k \<notin> set ks \<longrightarrow> map_of refs k = map_of acc k) \<and>
         (\<forall>k \<in> set ks. \<exists>p. ToString (lookup tx k) = Inr p \<and>
            (own_prop post p = None \<longrightarrow> map_of refs k = map_of acc k) \<and>
            (own_prop post p \<noteq> None \<longrightarrow>
               (\<exists>ids uids. own_prop post p = Some (JArr ids) \<and>
                  map_throwing (makeTermId mk) ids = Inr uids \<and> map_of refs k = Some uids)))"
  using assms
proof (induction ks arbitrary: acc)
  case Nil
  then show ?case by simp
next
  case (Cons k ks)
  from Cons.prems obtain r where r: "refs_step mk tx post (Inr acc) k = Inr r"
    and rest: "foldl (refs_step mk tx post) (Inr r) ks = Inr refs"
    by (cases "refs_step mk tx post (Inr acc) k") (auto simp: refs_fold_Inl)
  from refs_step_Inr[OF r] obtain p where p: "ToString (lookup tx k) = Inr p"
    and absent': "own_prop post p = None \<longrightarrow> r = acc"
    and present': "own_prop post p \<noteq> None \<longrightarrow>
       (\<exists>ids uids. own_prop post p = Some (JArr ids) \<and>
          map_throwing (makeTermId mk) ids = Inr uids \<and> r = AList.update k uids acc)"
    by (elim exE conjE)
  from absent' have absent: "own_prop post p = None \<Longrightarrow> r = acc"
    by (rule mp)
  from present' have present: "own_prop post p \<noteq> None \<Longrightarrow>
       \<exists>ids uids. own_prop post p = Some (JArr ids) \<and>
          map_throwing (makeTermId mk) ids = Inr uids \<and> r = AList.update k uids acc"
    by (rule mp)
  note IH = Cons.IH[OF rest]
  from IH have IH1: "\<forall>k'. k' \<notin> set ks \<longrightarrow> map_of refs k' = map_of r k'"
    by (rule conjunct1)
  from IH have IH2: "\<forall>k' \<in> set ks. \<exists>q. ToString (lookup tx k') = Inr q \<and>
            (own_prop post q = None \<longrightarrow> map_of refs k' = map_of r k') \<and>
            (own_prop post q \<noteq> None \<longrightarrow>
               (\<exists>ids uids. own_prop post q = Some (JArr ids) \<and>
                  map_throwing (makeTermId mk) ids = Inr uids \<and> map_of refs k' = Some uids))"
    by (rule conjunct2)
  have other: "map_of r k' = map_of acc k'" if "k' \<noteq> k" for k'
  proof (cases "own_prop post p = None")
    case True
    then show ?thesis using absent by simp
  next
    case False
    from present[OF this] obtain ids uids where "r = AList.update k uids acc" by blast
    with that show ?thesis by (simp add: update_conv')
  qed
  have outside: "\<forall>k'. k' \<notin> set (k # ks) \<longrightarrow> map_of refs k' = map_of acc k'"
  proof (intro allI impI)
    fix k' assume "k' \<notin> set (k # ks)"
    then have "k' \<noteq> k" "k' \<notin> set ks" by simp_all
    with IH1 other show "map_of refs k' = map_of acc k'" by simp
  qed
  have inside: "\<exists>q. ToString (lookup tx k') = Inr q \<and>
            (own_prop post q = None \<longrightarrow> map_of refs k' = map_of acc k') \<and>
            (own_prop post q \<noteq> None \<longrightarrow>
               (\<exists>ids uids. own_prop post q = Some (JArr ids) \<and>
                  map_throwing (makeTermId mk) ids = Inr uids \<and> map_of refs k' = Some uids))"
    if k': "k' \<in> set (k # ks)" for k'
  proof (cases "k' \<in> set ks")
    case True
    from bspec[OF IH2 True] obtain q where q: "ToString (lookup tx k') = Inr q"
      and qa: "own_prop post q = None \<longrightarrow> map_of refs k' = map_of r k'"
      and qp: "own_prop post q \<noteq> None \<longrightarrow>
               (\<exists>ids uids. own_prop post q = Some (JArr ids) \<and>
                  map_throwing (makeTermId mk) ids = Inr uids \<and> map_of refs k' = Some uids)"
      by (elim exE conjE)
    have "own_prop post q = None \<longrightarrow> map_of refs k' = map_of acc k'"
    proof
      assume n: "own_prop post q = None"
      show "map_of refs k' = map_of acc k'"
      proof (cases "k' = k")
        case True
        with q p have "q = p" by simp
        with n absent have "r = acc" by simp
        with qa n show ?thesis by simp
      next
        case False
        with qa n other show ?thesis by simp
      qed
    qed
    with q qp show ?thesis by (intro exI[of _ q] conjI)
  next
    case False
    with k' have eq: "k' = k" by simp
    from False IH1 have same: "map_of refs k' = map_of r k'" by simp
    have ab: "own_prop post p = None \<longrightarrow> map_of refs k' = map_of acc k'"
      using absent same by simp
    have pr: "own_prop post p \<noteq> None \<longrightarrow>
               (\<exists>ids uids. own_prop post p = Some (JArr ids) \<and>
                  map_throwing (makeTermId mk) ids = Inr uids \<and> map_of refs k' = Some uids)"
    proof
      assume "own_prop post p \<noteq> None"
      from present[OF this] obtain ids uids where x:
        "own_prop post p = Some (JArr ids)" "map_throwing (makeTermId mk) ids = Inr uids"
        "r = AList.update k uids acc" by blast
      have "map_of refs k' = Some uids"
        using same eq x(3) by (simp add: update_conv')
      with x(1,2) show "\<exists>ids uids. own_prop post p = Some (JArr ids) \<and>
                  map_throwing (makeTermId mk) ids = Inr uids \<and> map_of refs k' = Some uids"
        by blast
    qed
    from p eq have "ToString (lookup tx k') = Inr p" by simp
    with ab pr show ?thesis by (intro exI[of _ p] conjI)
  qed
  from inside have "\<forall>k' \<in> set (k # ks). \<exists>q. ToString (lookup tx k') = Inr q \<and>
            (own_prop post q = None \<longrightarrow> map_of refs k' = map_of acc k') \<and>
            (own_prop post q \<noteq> None \<longrightarrow>
               (\<exists>ids uids. own_prop post q = Some (JArr ids) \<and>
                  map_throwing (makeTermId mk) ids = Inr uids \<and> map_of refs k' = Some uids))"
    by (intro ballI)
  with outside show ?case by (intro conjI)
qed

lemma key_in_alist: "k \<in> fst ` set al \<longleftrightarrow> map_of al k \<noteq> None"
  by (simp add: map_of_eq_None_iff)

lemma post_call_refs:
  assumes "post_call mk taxonomies post = Inr (AddNode ty nd)"
  shows "build_refs mk taxonomies post = Inr (node_refs nd)"
  using assms by (auto simp: post_call_def split: sum.splits)

text \<open>
  Claim C6. Let a node be built for a record. Its \<^verbatim>\<open>refs\<close> has keys of known
  taxonomies only, and for every known taxonomy the key is there if and only if the
  taxonomy's reference property is an own property of the record; the property then holds
  an array, and the entry is the list of the term-namespace stable ids of its elements, in
  order.
\<close>

theorem refs_iff_property_present:
  assumes "post_call mk taxonomies post = Inr (AddNode ty nd)"
  shows "(\<forall>typeName. typeName \<in> fst ` set (node_refs nd) \<longrightarrow> typeName \<in> fst ` set taxonomies) \<and>
         (\<forall>typeName. typeName \<in> fst ` set taxonomies \<longrightarrow>
            (\<exists>propName. ToString (lookup taxonomies typeName) = Inr propName \<and>
               (typeName \<in> fst ` set (node_refs nd) \<longleftrightarrow> own_prop post propName \<noteq> None) \<and>
               (own_prop post propName \<noteq> None \<longrightarrow>
                  (\<exists>ids uids. own_prop post propName = Some (JArr ids) \<and>
                     map_throwing (makeTermId mk) ids = Inr uids \<and>
                     map_of (node_refs nd) typeName = Some uids))))"
proof -
  let ?refs = "node_refs nd"
  have "foldl (refs_step mk taxonomies post) (Inr []) (remdups (map fst taxonomies)) = Inr ?refs"
    using post_call_refs[OF assms] by (simp add: build_refs_def)
  note inv = refs_fold_invariant[OF this]
  have a: "typeName \<in> fst ` set taxonomies" if "typeName \<in> fst ` set ?refs" for typeName
  proof (rule ccontr)
    assume "typeName \<notin> fst ` set taxonomies"
    then have "typeName \<notin> set (remdups (map fst taxonomies))" by simp
    with inv have "map_of ?refs typeName = None" by simp
    with that show False by (simp add: key_in_alist)
  qed
  have b: "\<exists>propName. ToString (lookup taxonomies typeName) = Inr propName \<and>
               (typeName \<in> fst ` set ?refs \<longleftrightarrow> own_prop post propName \<noteq> None) \<and>
               (own_prop post propName \<noteq> None \<longrightarrow>
                  (\<exists>ids uids. own_prop post propName = Some (JArr ids) \<and>
                     map_throwing (makeTermId mk) ids = Inr uids \<and>
                     map_of ?refs typeName = Some uids))"
    if "typeName \<in> fst ` set taxonomies" for typeName
  proof -
    from that have mem: "typeName \<in> set (remdups (map fst taxonomies))" by simp
    from inv have "\<forall>k \<in> set (remdups (map fst taxonomies)).
         \<exists>p. ToString (lookup taxonomies k) = Inr p \<and>
            (own_prop post p = None \<longrightarrow> map_of ?refs k = map_of [] k) \<and>
            (own_prop post p \<noteq> None \<longrightarrow>
               (\<exists>ids uids. own_prop post p = Some (JArr ids) \<and>
                  map_throwing (makeTermId mk) ids = Inr uids \<and> map_of ?refs k = Some uids))"
      by (rule conjunct2)
    from bspec[OF this mem] obtain p where p: "ToString (lookup taxonomies typeName) = Inr p"
      and pa: "own_prop post p = None \<longrightarrow> map_of ?refs typeName = map_of [] typeName"
      and pp: "own_prop post p \<noteq> None \<longrightarrow>
               (\<exists>ids uids. own_prop post p = Some (JArr ids) \<and>
                  map_throwing (makeTermId mk) ids = Inr uids \<and> map_of ?refs typeName = Some uids)"
      by (elim exE conjE)
    have "typeName \<in> fst ` set ?refs \<longleftrightarrow> own_prop post p \<noteq> None"
      using pa pp by (auto simp: key_in_alist)
    with p pp show ?thesis by blast
  qed
  from a b show ?thesis by blast
qed

text \<open>Remote numeric ids: the ids 3 and 7 give the stable ids of term-3 and term-7.\<close>

lemma map_throwing_makeTermId_nums:
  "map_throwing (makeTermId mk) (map JNum ns) = Inr (map (\<lambda>n. mk (''term-'' @ show_int n)) ns)"
  by (induction ns) (simp_all add: makeTermId_def)

text \<open>A date that cannot be converted to a primitive ends the loop body with a TypeError.\<close>

lemma date_of_unconvertible:
  "date_of (JObj [(''date'', JObj [(''toString'', JNum 1)])]) = Inl TypeError"
  by (simp add: date_of_def get_prop_def new_Date_def)

lemma example_post_call:
  "post_call example_makeUid example_taxonomies example_post =
     Inr (AddNode (JStr ''post'')
            (PostNode ''uid:post-42'' (JStr ''Hello'') NullDate (JStr ''hello'') (JStr []) (JStr [])
               [(''category'', [''uid:term-3'', ''uid:term-7''])]))"
  by code_simp

lemma example_term_call:
  "term_call example_makeUid example_term =
     Inr (AddNode (JStr ''category'')
            (TermNode ''uid:term-3'' (JStr ''news'') (JStr ''News'') (JNum 3)))"
  by code_simp

theorem refs_iff_property_present_witness:
  "post_call example_makeUid example_taxonomies example_post =
     Inr (AddNode (JStr ''post'')
            (PostNode ''uid:post-42'' (JStr ''Hello'') NullDate (JStr ''hello'') (JStr []) (JStr [])
               [(''category'', [''uid:term-3'', ''uid:term-7''])])) \<and>
   own_prop example_post ''categories'' = Some (JArr [JNum 3, JNum 7]) \<and>
   own_prop example_post ''tags'' = None \<and>
   ''category'' \<in> fst ` set [(''category'', [''uid:term-3'', ''uid:term-7''])] \<and>
   ''post_tag'' \<notin> fst ` set [(''category'', [''uid:term-3'', ''uid:term-7''])]"
proof -
  let ?nd = "PostNode ''uid:post-42'' (JStr ''Hello'') NullDate (JStr ''hello'') (JStr []) (JStr [])
               [(''category'', [''uid:term-3'', ''uid:term-7''])]"
  note main = refs_iff_property_present[OF example_post_call]
  have c: "own_prop example_post ''categories'' = Some (JArr [JNum 3, JNum 7])"
    by (simp add: example_post_def)
  have t: "own_prop example_post ''tags'' = None"
    by (simp add: example_post_def)
  have kc: "ToString (lookup example_taxonomies ''category'') = Inr ''categories''"
    by (simp add: example_taxonomies_def lookup_def)
  have kt: "ToString (lookup example_taxonomies ''post_tag'') = Inr ''tags''"
    by (simp add: example_taxonomies_def lookup_def)
  have mc: "''category'' \<in> fst ` set example_taxonomies"
    by (simp add: example_taxonomies_def)
  have mt: "''post_tag'' \<in> fst ` set example_taxonomies"
    by (simp add: example_taxonomies_def)
  from main have all: "\<forall>typeName. typeName \<in> fst ` set example_taxonomies \<longrightarrow>
            (\<exists>propName. ToString (lookup example_taxonomies typeName) = Inr propName \<and>
               (typeName \<in> fst ` set (node_refs ?nd) \<longleftrightarrow> own_prop example_post propName \<noteq> None) \<and>
               (own_prop example_post propName \<noteq> None \<longrightarrow>
                  (\<exists>ids uids. own_prop example_post propName = Some (JArr ids) \<and>
                     map_throwing (makeTermId example_makeUid) ids = Inr uids \<and>
                     map_of (node_refs ?nd) typeName = Some uids)))"
    by (rule conjunct2)
  from mp[OF spec[OF all] mc] obtain pc where
    pc: "ToString (lookup example_taxonomies ''category'') = Inr pc"
    and ic: "''category'' \<in> fst ` set (node_refs ?nd) \<longleftrightarrow> own_prop example_post pc \<noteq> None"
    by (elim exE conjE)
  from pc kc have "pc = ''categories''" by simp
  with ic c have in_c: "''category'' \<in> fst ` set (node_refs ?nd)" by simp
  from mp[OF spec[OF all] mt] obtain pt where
    pt: "ToString (lookup example_taxonomies ''post_tag'') = Inr pt"
    and it: "''post_tag'' \<in> fst ` set (node_refs ?nd) \<longleftrightarrow> own_prop example_post pt \<noteq> None"
    by (elim exE conjE)
  from pt kt have "pt = ''tags''" by simp
  with it t have out_t: "''post_tag'' \<notin> fst ` set (node_refs ?nd)" by simp
  from in_c out_t c t example_post_call show ?thesis by simp
qed

subsection \<open>The type key of a node\<close>

text \<open>
  Claim C8, as amended. For every fetched record for which a node is emitted, the type key
  passed to \<^verbatim>\<open>addNode\<close> is the value of the record's own property
  \<^verbatim>\<open>type\<close> for a content record and \<^verbatim>\<open>taxonomy\<close> for a term
  record. It is the discovered type key of the endpoint exactly when the record carries
  that key there.
\<close>

theorem node_type_key_from_record:
  "(post_call mk taxonomies post = Inr c \<longrightarrow>
      (\<exists>ty nd. c = AddNode ty nd \<and> get_prop post ''type'' = Inr ty)) \<and>
   (term_call mk term = Inr c' \<longrightarrow>
      (\<exists>ty nd. c' = AddNode ty nd \<and> get_prop term ''taxonomy'' = Inr ty))"
proof (intro conjI impI)
  assume "post_call mk taxonomies post = Inr c"
  then show "\<exists>ty nd. c = AddNode ty nd \<and> get_prop post ''type'' = Inr ty"
    unfolding post_call_def by (simp split: sum.splits) blast
next
  assume "term_call mk term = Inr c'"
  then show "\<exists>ty nd. c' = AddNode ty nd \<and> get_prop term ''taxonomy'' = Inr ty"
    unfolding term_call_def by (simp split: sum.splits) blast
qed

theorem node_type_key_from_record_witness:
  "post_call example_makeUid example_taxonomies example_post =
     Inr (AddNode (JStr ''post'')
            (PostNode ''uid:post-42'' (JStr ''Hello'') NullDate (JStr ''hello'') (JStr []) (JStr [])
               [(''category'', [''uid:term-3'', ''uid:term-7''])])) \<and>
   get_prop example_post ''type'' = Inr (JStr ''post'') \<and>
   term_call example_makeUid example_term =
     Inr (AddNode (JStr ''category'')
            (TermNode ''uid:term-3'' (JStr ''news'') (JStr ''News'') (JNum 3))) \<and>
   get_prop example_term ''taxonomy'' = Inr (JStr ''category'')"
proof -
  let ?c = "AddNode (JStr ''post'')
            (PostNode ''uid:post-42'' (JStr ''Hello'') NullDate (JStr ''hello'') (JStr []) (JStr [])
               [(''category'', [''uid:term-3'', ''uid:term-7''])])"
  let ?c' = "AddNode (JStr ''category'')
            (TermNode ''uid:term-3'' (JStr ''news'') (JStr ''News'') (JNum 3))"
  note main = node_type_key_from_record[of example_makeUid example_taxonomies example_post ?c
                example_term ?c']
  from main have "post_call example_makeUid example_taxonomies example_post = Inr ?c \<longrightarrow>
      (\<exists>ty nd. ?c = AddNode ty nd \<and> get_prop example_post ''type'' = Inr ty)"
    by (rule conjunct1)
  from mp[OF this example_post_call] have p: "get_prop example_post ''type'' = Inr (JStr ''post'')"
    by (elim exE conjE) simp
  from main have "term_call example_makeUid example_term = Inr ?c' \<longrightarrow>
      (\<exists>ty nd. ?c' = AddNode ty nd \<and> get_prop example_term ''taxonomy'' = Inr ty)"
    by (rule conjunct2)
  from mp[OF this example_term_call] have t: "get_prop example_term ''taxonomy'' = Inr (JStr ''category'')"
    by (elim exE conjE) simp
  from p t example_post_call example_term_call show ?thesis by simp
qed

text \<open>
  The events of the example queue are the responses the task handler obtains from the
  example site for the two tasks.
\<close>

lemma example_schedule_handler:
  "example_schedule u =
     [TaskFinish ''https://example.org/wp-json/wp/v2/posts?per_page=100&page=2''
        (projr (taskHandler example_site
                  ''https://example.org/wp-json/wp/v2/posts?per_page=100&page=2'')),
      TaskFinish ''https://example.org/wp-json/wp/v2/posts?per_page=100&page=3''
        (projr (taskHandler example_site
                  ''https://example.org/wp-json/wp/v2/posts?per_page=100&page=3'')),
      Drain]"
  by (simp add: example_schedule_def taskHandler_def example_site_def example_pages_def)

lemma example_run:
  "apply_source example_env example_plugin_options =
     \<lparr>status = Ok,
      restBases_posts = [(''post'', JStr ''posts'')],
      restBases_taxonomies = [(''category'', JStr ''categories'')],
      calls =
        [AddType ''post'' (JStr ''Posts'') (JStr ''/:year/:month/:day/:slug''),
         AddType ''category'' (JStr ''Categories'') (JStr ''/category/:slug''),
         AddNode (JStr ''post'')
           (PostNode ''uid:post-1'' (JStr []) NullDate JUndefined (JStr []) (JStr [])
              [(''category'', [''uid:term-3''])]),
         AddNode (JStr ''post'')
           (PostNode ''uid:post-2'' (JStr []) NullDate JUndefined (JStr []) (JStr [])
              [(''category'', [''uid:term-3''])]),
         AddNode (JStr ''page'')
           (PostNode ''uid:post-3'' (JStr []) NullDate JUndefined (JStr []) (JStr [])
              [(''category'', [''uid:term-3''])]),
         AddNode (JStr ''category'')
           (TermNode ''uid:term-3'' (JStr ''news'') (JStr ''News'') (JNum 3))]\<rparr>"
  by code_simp

text \<open>
  Claim C8 as stated takes the type key from the endpoint. In the example run the only
  content type discovered is \<^verbatim>\<open>post\<close>, and the record with id 3, fetched from
  its endpoint, is emitted under \<^verbatim>\<open>page\<close>.
\<close>

theorem record_type_differs_from_endpoint:
  "restBases_posts (apply_source example_env example_plugin_options) = [(''post'', JStr ''posts'')] \<and>
   AddNode (JStr ''page'')
     (PostNode ''uid:post-3'' (JStr []) NullDate JUndefined (JStr []) (JStr [])
        [(''category'', [''uid:term-3''])])
     \<in> set (calls (apply_source example_env example_plugin_options))"
  by (simp add: example_run)

subsection \<open>Two runs over the same remote data\<close>

text \<open>
  A run is a function of its environment. What may differ between two runs over the same
  remote data is the order in which the pages of an endpoint complete. While the
  operation is pending and no drain event has come, every event is a page that was
  appended, so that the resolved sequence is the first page followed by the later pages in
  order of completion.
\<close>

lemma pending_step:
  assumes "promise st = Pending" and "ev \<noteq> Drain"
    and "promise (on_event parse st ev) = Pending"
  shows "\<exists>xs items. res_data st = JArr xs \<and> appended parse ev = Some items \<and>
           on_event parse st ev = st\<lparr>res_data := JArr (xs @ items)\<rparr>"
proof (cases ev)
  case (TaskFailed i e)
  with assms show ?thesis by (simp add: on_event_def on_task_failed_def reject_def)
next
  case Drain
  with assms show ?thesis by simp
next
  case (TaskFinish i r)
  have nn: "res_data st \<noteq> JNull \<and> res_data st \<noteq> JUndefined"
    using assms(1,3) TaskFinish
    by (auto simp: on_event_def on_task_finish_def reject_def)
  show ?thesis
  proof (cases "ensureArrayData parse i (data r)")
    case (Inl e)
    with assms(1,3) TaskFinish nn show ?thesis
      by (simp add: on_event_def on_task_finish_def reject_def)
  next
    case v: (Inr v)
    show ?thesis
    proof (cases "spread v")
      case (Inl e)
      with assms(1,3) TaskFinish nn v show ?thesis
        by (simp add: on_event_def on_task_finish_def reject_def)
    next
      case items: (Inr items)
      have app: "appended parse ev = Some items"
        using TaskFinish v items by (simp add: appended_def)
      show ?thesis
      proof (cases "res_data st")
        case (JArr xs)
        then have "on_event parse st ev = st\<lparr>res_data := JArr (xs @ items)\<rparr>"
          using TaskFinish v items by (simp add: on_event_def on_task_finish_def)
        with JArr app show ?thesis by simp
      qed (use assms(1,3) TaskFinish v items in
            \<open>simp_all add: on_event_def on_task_finish_def reject_def\<close>)
    qed
  qed
qed

lemma ok_step:
  assumes "res_data st = JArr xs" and "appended parse ev = Some items"
  shows "on_event parse st ev = st\<lparr>res_data := JArr (xs @ items)\<rparr>"
proof (cases ev)
  case (TaskFinish i r)
  with assms show ?thesis
    by (auto simp: appended_def on_event_def on_task_finish_def split: sum.splits)
qed (use assms in \<open>simp_all add: appended_def\<close>)

lemma ok_run:
  assumes "res_data st = JArr xs" and "\<forall>e \<in> set es. appended parse e \<noteq> None"
  shows "run_events parse st es =
           st\<lparr>res_data := JArr (xs @ concat (map (\<lambda>e. the (appended parse e)) es))\<rparr>"
  using assms
proof (induction es arbitrary: st xs)
  case Nil
  then show ?case by (simp add: run_events_def)
next
  case (Cons e es)
  from Cons.prems(2) obtain items where items: "appended parse e = Some items" by auto
  have step: "on_event parse st e = st\<lparr>res_data := JArr (xs @ items)\<rparr>"
    by (rule ok_step[OF Cons.prems(1) items])
  have rd: "res_data (on_event parse st e) = JArr (xs @ items)"
    by (simp add: step)
  have rest: "\<forall>e \<in> set es. appended parse e \<noteq> None" using Cons.prems(2) by simp
  from Cons.IH[OF rd rest] show ?case
    by (simp add: run_events_Cons step items)
qed

lemma pending_run:
  assumes "promise st = Pending" and "Drain \<notin> set es"
    and "promise (run_events parse st es) = Pending"
  shows "(\<forall>e \<in> set es. appended parse e \<noteq> None) \<and> (es = [] \<or> (\<exists>xs. res_data st = JArr xs))"
  using assms
proof (induction es arbitrary: st)
  case Nil
  then show ?case by simp
next
  case (Cons e es)
  have e: "e \<noteq> Drain" and es: "Drain \<notin> set es" using Cons.prems(2) by auto
  have fin: "promise (run_events parse (on_event parse st e) es) = Pending"
    using Cons.prems(3) by (simp add: run_events_Cons)
  have p1: "promise (on_event parse st e) = Pending"
  proof (rule ccontr)
    assume n: "promise (on_event parse st e) \<noteq> Pending"
    from settled_run_events[OF n, of parse es] fin n show False by simp
  qed
  from pending_step[OF Cons.prems(1) e p1] obtain xs items where
    xs: "res_data st = JArr xs" and app: "appended parse e = Some items" by blast
  from Cons.IH[OF p1 es fin] have "\<forall>e \<in> set es. appended parse e \<noteq> None"
    by (rule conjunct1)
  with xs app show ?case by simp
qed

lemma mset_concat_map:
  "mset (concat (map f xs)) = (\<Sum>x \<in># mset xs. mset (f x))"
  by (induction xs) simp_all

lemma mset_concat_map_cong:
  assumes "mset xs = mset ys"
  shows "mset (concat (map f xs)) = mset (concat (map f ys))"
  by (simp add: mset_concat_map assms)

lemma same_events_sym: "same_events es1 es2 \<Longrightarrow> same_events es2 es1"
proof -
  assume a: "same_events es1 es2"
  show ?thesis
  proof (cases "es1 = es2")
    case True
    then show ?thesis by (simp add: same_events_def)
  next
    case False
    with a have h: "es1 \<noteq> []" "es2 \<noteq> []" "last es1 = Drain" "last es2 = Drain"
      "Drain \<notin> set (butlast es1)" "mset (butlast es1) = mset (butlast es2)"
      by (simp_all add: same_events_def)
    from h(6) have "set (butlast es1) = set (butlast es2)" by (rule mset_eq_setD)
    with h show ?thesis by (simp add: same_events_def)
  qed
qed

lemma run_events_snoc:
  "run_events parse st (es @ [e]) = on_event parse (run_events parse st es) e"
  by (simp add: run_events_def)

lemma resolved_reordered:
  assumes "promise st = Pending" and "same_events es1 es2"
    and "promise (run_events parse st es1) = Resolved v1"
  shows "\<exists>v2. promise (run_events parse st es2) = Resolved v2 \<and>
           (v1 = v2 \<or> (\<exists>xs ys. v1 = JArr xs \<and> v2 = JArr ys \<and> mset xs = mset ys))"
proof (cases "es1 = es2")
  case True
  with assms(3) show ?thesis by simp
next
  case False
  with assms(2) have h: "es1 \<noteq> []" "es2 \<noteq> []" "last es1 = Drain" "last es2 = Drain"
    "Drain \<notin> set (butlast es1)" "mset (butlast es1) = mset (butlast es2)"
    by (simp_all add: same_events_def)
  define b1 where "b1 = butlast es1"
  define b2 where "b2 = butlast es2"
  have es1: "es1 = b1 @ [Drain]"
    using h(1,3) append_butlast_last_id[of es1] by (simp add: b1_def)
  have es2: "es2 = b2 @ [Drain]"
    using h(2,4) append_butlast_last_id[of es2] by (simp add: b2_def)
  have m: "mset b1 = mset b2" using h(6) by (simp add: b1_def b2_def)
  have d1: "Drain \<notin> set b1" using h(5) by (simp add: b1_def)
  have s: "set b1 = set b2" using m by (rule mset_eq_setD)
  let ?s1 = "run_events parse st b1"
  let ?s2 = "run_events parse st b2"
  have fin1: "promise (on_event parse ?s1 Drain) = Resolved v1"
    using assms(3) by (simp add: es1 run_events_snoc)
  have p1: "promise ?s1 = Pending"
  proof (rule ccontr)
    assume n: "promise ?s1 \<noteq> Pending"
    with not_resolved_run_events[OF d1 assms(1), of parse]
    obtain e where e: "promise ?s1 = Rejected e" by blast
    then have "promise (on_event parse ?s1 Drain) = Rejected e"
      by (simp add: settled_on_event)
    with fin1 show False by simp
  qed
  have v1: "v1 = res_data ?s1"
    using fin1 p1 by (simp add: on_event_def on_drain_def resolve_def)
  from pending_run[OF assms(1) d1 p1]
  have ok1: "\<forall>e \<in> set b1. appended parse e \<noteq> None"
    and cases1: "b1 = [] \<or> (\<exists>xs. res_data st = JArr xs)" by blast+
  from cases1 show ?thesis
  proof
    assume "b1 = []"
    with m have "b2 = []" by simp
    with \<open>b1 = []\<close> es1 es2 assms(3) show ?thesis by simp
  next
    assume "\<exists>xs. res_data st = JArr xs"
    then obtain xs where xs: "res_data st = JArr xs" ..
    have ok2: "\<forall>e \<in> set b2. appended parse e \<noteq> None" using ok1 s by simp
    have r1: "?s1 = st\<lparr>res_data := JArr (xs @ concat (map (\<lambda>e. the (appended parse e)) b1))\<rparr>"
      by (rule ok_run[OF xs ok1])
    have r2: "?s2 = st\<lparr>res_data := JArr (xs @ concat (map (\<lambda>e. the (appended parse e)) b2))\<rparr>"
      by (rule ok_run[OF xs ok2])
    have p2: "promise ?s2 = Pending" using assms(1) by (simp add: r2)
    have fin2: "promise (run_events parse st es2) = Resolved (res_data ?s2)"
      using p2 by (simp add: es2 run_events_snoc on_event_def on_drain_def resolve_def)
    have a: "v1 = JArr (xs @ concat (map (\<lambda>e. the (appended parse e)) b1))"
      using v1 by (simp add: r1)
    have b: "res_data ?s2 = JArr (xs @ concat (map (\<lambda>e. the (appended parse e)) b2))"
      by (simp add: r2)
    have c: "mset (xs @ concat (map (\<lambda>e. the (appended parse e)) b1)) =
             mset (xs @ concat (map (\<lambda>e. the (appended parse e)) b2))"
      using mset_concat_map_cong[OF m] by simp
    from fin2 a b c show ?thesis by blast
  qed
qed

lemma fetchPaged_reordered:
  assumes "same_events es1 es2"
    and "fetchPaged parse get url opts es1 = Resolved v1"
  shows "\<exists>v2. fetchPaged parse get url opts es2 = Resolved v2 \<and>
           (v1 = v2 \<or> (\<exists>xs ys. v1 = JArr xs \<and> v2 = JArr ys \<and> mset xs = mset ys))"
proof (cases "get (first_url url opts)")
  case (Inl e)
  with assms(2) show ?thesis by (simp add: fetchPaged_def)
next
  case (Inr res)
  show ?thesis
  proof (cases "fetchPaged_start parse url opts res")
    case (Settled p)
    with Inr assms(2) show ?thesis by (simp add: fetchPaged_def)
  next
    case (Queued st tasks)
    then have st: "promise st = Pending"
      by (auto simp: fetchPaged_start_def Let_def split: sum.splits if_splits)
    have r1: "promise (run_events parse st es1) = Resolved v1"
      using assms(2) Inr Queued by (simp add: fetchPaged_def)
    from resolved_reordered[OF st assms(1) r1] Inr Queued show ?thesis
      by (simp add: fetchPaged_def)
  qed
qed

lemma map_throwing_Inr:
  assumes "map_throwing f xs = Inr ys"
  shows "(\<forall>x \<in> set xs. \<exists>y. f x = Inr y) \<and> ys = map (\<lambda>x. projr (f x)) xs"
  using assms
proof (induction xs arbitrary: ys)
  case Nil
  then show ?case by simp
next
  case (Cons x xs)
  from Cons.prems obtain y where y: "f x = Inr y"
    by (cases "f x") simp_all
  from Cons.prems y obtain zs where zs: "map_throwing f xs = Inr zs" and ys: "ys = y # zs"
    by (cases "map_throwing f xs") simp_all
  from Cons.IH[OF zs] y ys show ?case by simp
qed

lemma map_throwing_all:
  assumes "\<forall>x \<in> set xs. \<exists>y. f x = Inr y"
  shows "map_throwing f xs = Inr (map (\<lambda>x. projr (f x)) xs)"
  using assms
proof (induction xs)
  case Nil
  then show ?case by simp
next
  case (Cons x xs)
  from Cons.prems obtain y where y: "f x = Inr y" by auto
  from Cons.prems have "\<forall>x \<in> set xs. \<exists>y. f x = Inr y" by simp
  from Cons.IH[OF this] y show ?case by simp
qed

lemma add_call_stuck: "status st \<noteq> Ok \<Longrightarrow> foldl (add_call build) st rs = st"
  by (induction rs) (simp_all add: add_call_def)

lemma add_calls_all:
  assumes "status st = Ok" and "\<forall>r \<in> set rs. \<exists>c. build r = Inr c"
  shows "foldl (add_call build) st rs = st\<lparr>calls := calls st @ map (\<lambda>r. projr (build r)) rs\<rparr>"
  using assms
proof (induction rs arbitrary: st)
  case Nil
  then show ?case by simp
next
  case (Cons r rs)
  from Cons.prems(2) obtain c where c: "build r = Inr c" by auto
  have step: "add_call build st r = st\<lparr>calls := calls st @ [c]\<rparr>"
    using Cons.prems(1) c by (simp add: add_call_def)
  have ok: "status (add_call build st r) = Ok" using Cons.prems(1) by (simp add: step)
  have rest: "\<forall>r \<in> set rs. \<exists>c. build r = Inr c" using Cons.prems(2) by simp
  from Cons.IH[OF ok rest] show ?case by (simp add: step c)
qed

lemma add_calls_ok:
  assumes "status st = Ok" and "status (foldl (add_call build) st rs) = Ok"
  shows "\<forall>r \<in> set rs. \<exists>c. build r = Inr c"
  using assms
proof (induction rs arbitrary: st)
  case Nil
  then show ?case by simp
next
  case (Cons r rs)
  have fin: "status (foldl (add_call build) (add_call build st r) rs) = Ok"
    using Cons.prems(2) by simp
  have ok: "status (add_call build st r) = Ok"
  proof (rule ccontr)
    assume n: "status (add_call build st r) \<noteq> Ok"
    from add_call_stuck[OF n, of build rs] fin n show False by simp
  qed
  then obtain c where c: "build r = Inr c"
    using Cons.prems(1) by (cases "build r") (simp_all add: add_call_def)
  from Cons.IH[OF ok fin] c show ?case by simp
qed

lemma spread_similar:
  assumes "v1 = v2 \<or> (\<exists>xs ys. v1 = JArr xs \<and> v2 = JArr ys \<and> mset xs = mset ys)"
    and "spread v1 = Inr rs1"
  shows "\<exists>rs2. spread v2 = Inr rs2 \<and> mset rs1 = mset rs2"
  using assms(1)
proof
  assume "v1 = v2"
  with assms(2) show ?thesis by simp
next
  assume "\<exists>xs ys. v1 = JArr xs \<and> v2 = JArr ys \<and> mset xs = mset ys"
  then obtain xs ys where "v1 = JArr xs" "v2 = JArr ys" "mset xs = mset ys" by blast
  with assms(2) show ?thesis by (simp add: spread_def)
qed

lemma fetch_and_add_stuck:
  "status st \<noteq> Ok \<Longrightarrow> fetch_and_add ev opts restUrl build bases st k = st"
  by (simp add: fetch_and_add_def)

lemma foldl_fetch_and_add_stuck:
  "status st \<noteq> Ok \<Longrightarrow> foldl (fetch_and_add ev opts restUrl build bases) st ks = st"
  by (induction ks) (simp_all add: fetch_and_add_stuck)

lemma fetch_and_add_Ok:
  assumes "status st = Ok"
    and "status (fetch_and_add ev opts restUrl build bases st k) = Ok"
  shows "\<exists>restBase v rs. ToString (lookup bases k) = Inr restBase \<and>
           fetchPaged (json_parse ev) (axios_get ev) (restUrl @ ''/'' @ restBase) opts
             (queue_events ev (restUrl @ ''/'' @ restBase)) = Resolved v \<and>
           spread v = Inr rs \<and> (\<forall>r \<in> set rs. \<exists>c. build r = Inr c)"
proof (cases "ToString (lookup bases k)")
  case (Inl e)
  with assms show ?thesis by (simp add: fetch_and_add_def)
next
  case (Inr restBase)
  let ?p = "fetchPaged (json_parse ev) (axios_get ev) (restUrl @ ''/'' @ restBase) opts
             (queue_events ev (restUrl @ ''/'' @ restBase))"
  show ?thesis
  proof (cases ?p)
    case Pending
    with assms Inr show ?thesis by (simp add: fetch_and_add_def Let_def)
  next
    case (Rejected e)
    with assms Inr show ?thesis by (simp add: fetch_and_add_def Let_def)
  next
    case (Resolved v)
    show ?thesis
    proof (cases "spread v")
      case (Inl e)
      with assms Inr Resolved show ?thesis by (simp add: fetch_and_add_def Let_def)
    next
      case rs: (Inr rs)
      have "status (foldl (add_call build) st rs) = Ok"
        using assms Inr Resolved rs by (simp add: fetch_and_add_def Let_def)
      from add_calls_ok[OF assms(1) this] Inr Resolved rs show ?thesis by simp
    qed
  qed
qed

lemma fetch_and_add_value:
  assumes "status st = Ok"
    and "ToString (lookup bases k) = Inr restBase"
    and "fetchPaged (json_parse ev) (axios_get ev) (restUrl @ ''/'' @ restBase) opts
             (queue_events ev (restUrl @ ''/'' @ restBase)) = Resolved v"
    and "spread v = Inr rs" and "\<forall>r \<in> set rs. \<exists>c. build r = Inr c"
  shows "fetch_and_add ev opts restUrl build bases st k =
           st\<lparr>calls := calls st @ map (\<lambda>r. projr (build r)) rs\<rparr>"
  using assms(1-4) add_calls_all[OF assms(1,5)]
  by (simp add: fetch_and_add_def Let_def)

lemma fetch_and_add_reordered:
  assumes same: "\<forall>u. same_events (queue_events ev u) (q' u)"
    and st1: "status st1 = Ok" and st2: "status st2 = Ok"
    and calls: "mset (calls st1) = mset (calls st2)"
    and ok: "status (fetch_and_add ev opts restUrl build bases st1 k) = Ok"
  shows "status (fetch_and_add (ev\<lparr>queue_events := q'\<rparr>) opts restUrl build bases st2 k) = Ok \<and>
         mset (calls (fetch_and_add ev opts restUrl build bases st1 k)) =
         mset (calls (fetch_and_add (ev\<lparr>queue_events := q'\<rparr>) opts restUrl build bases st2 k))"
proof -
  let ?ev' = "ev\<lparr>queue_events := q'\<rparr>"
  from fetch_and_add_Ok[OF st1 ok] obtain restBase v rs where
    rb: "ToString (lookup bases k) = Inr restBase"
    and fp: "fetchPaged (json_parse ev) (axios_get ev) (restUrl @ ''/'' @ restBase) opts
             (queue_events ev (restUrl @ ''/'' @ restBase)) = Resolved v"
    and sp: "spread v = Inr rs" and all: "\<forall>r \<in> set rs. \<exists>c. build r = Inr c"
    by blast
  from same have se: "same_events (queue_events ev (restUrl @ ''/'' @ restBase))
                        (q' (restUrl @ ''/'' @ restBase))" by (rule spec)
  from fetchPaged_reordered[OF se fp] obtain v2 where
    fp2: "fetchPaged (json_parse ev) (axios_get ev) (restUrl @ ''/'' @ restBase) opts
             (q' (restUrl @ ''/'' @ restBase)) = Resolved v2"
    and sim: "v = v2 \<or> (\<exists>xs ys. v = JArr xs \<and> v2 = JArr ys \<and> mset xs = mset ys)"
    by blast
  from spread_similar[OF sim sp] obtain rs2 where
    sp2: "spread v2 = Inr rs2" and m: "mset rs = mset rs2" by blast
  have "set rs = set rs2" using m by (rule mset_eq_setD)
  with all have all2: "\<forall>r \<in> set rs2. \<exists>c. build r = Inr c" by simp
  have fp2': "fetchPaged (json_parse ?ev') (axios_get ?ev') (restUrl @ ''/'' @ restBase) opts
             (queue_events ?ev' (restUrl @ ''/'' @ restBase)) = Resolved v2"
    using fp2 by simp
  have r1: "fetch_and_add ev opts restUrl build bases st1 k =
           st1\<lparr>calls := calls st1 @ map (\<lambda>r. projr (build r)) rs\<rparr>"
    by (rule fetch_and_add_value[OF st1 rb fp sp all])
  have r2: "fetch_and_add ?ev' opts restUrl build bases st2 k =
           st2\<lparr>calls := calls st2 @ map (\<lambda>r. projr (build r)) rs2\<rparr>"
    by (rule fetch_and_add_value[OF st2 rb fp2' sp2 all2])
  have "mset (map (\<lambda>r. projr (build r)) rs) = mset (map (\<lambda>r. projr (build r)) rs2)"
    using m by simp
  with calls st2 show ?thesis by (simp add: r1 r2)
qed

lemma foldl_fetch_and_add_reordered:
  assumes same: "\<forall>u. same_events (queue_events ev u) (q' u)"
    and "status st1 = Ok" and "status st2 = Ok"
    and "mset (calls st1) = mset (calls st2)"
    and "status (foldl (fetch_and_add ev opts restUrl build bases) st1 ks) = Ok"
  shows "status (foldl (fetch_and_add (ev\<lparr>queue_events := q'\<rparr>) opts restUrl build bases) st2 ks) = Ok \<and>
         mset (calls (foldl (fetch_and_add ev opts restUrl build bases) st1 ks)) =
         mset (calls (foldl (fetch_and_add (ev\<lparr>queue_events := q'\<rparr>) opts restUrl build bases) st2 ks))"
  using assms(2-)
proof (induction ks arbitrary: st1 st2)
  case Nil
  then show ?case by simp
next
  case (Cons k ks)
  let ?s1 = "fetch_and_add ev opts restUrl build bases st1 k"
  let ?s2 = "fetch_and_add (ev\<lparr>queue_events := q'\<rparr>) opts restUrl build bases st2 k"
  have fin: "status (foldl (fetch_and_add ev opts restUrl build bases) ?s1 ks) = Ok"
    using Cons.prems(4) by simp
  have ok1: "status ?s1 = Ok"
  proof (rule ccontr)
    assume n: "status ?s1 \<noteq> Ok"
    from foldl_fetch_and_add_stuck[OF n, of ev opts restUrl build bases ks] fin n
    show False by simp
  qed
  from fetch_and_add_reordered[OF same Cons.prems(1,2,3) ok1]
  have ok2: "status ?s2 = Ok" and m: "mset (calls ?s1) = mset (calls ?s2)" by simp_all
  from Cons.IH[OF ok1 ok2 m fin] show ?case by simp
qed

lemma build_graph_reordered:
  assumes same: "\<forall>u. same_events (queue_events ev u) (q' u)"
    and ok: "status (build_graph ev opts restUrl st) = Ok"
  shows "status (build_graph (ev\<lparr>queue_events := q'\<rparr>) opts restUrl st) = Ok \<and>
         mset (calls (build_graph ev opts restUrl st)) =
         mset (calls (build_graph (ev\<lparr>queue_events := q'\<rparr>) opts restUrl st))"
proof -
  let ?ev' = "ev\<lparr>queue_events := q'\<rparr>"
  let ?P = "\<lambda>e. fetch_and_add e opts restUrl (post_call (makeUid ev) (restBases_taxonomies st))
                  (restBases_posts st)"
  let ?T = "\<lambda>e. fetch_and_add e opts restUrl (term_call (makeUid ev)) (restBases_taxonomies st)"
  let ?pk = "for_in_keys (JObj (restBases_posts st))"
  let ?tk = "for_in_keys (JObj (restBases_taxonomies st))"
  have bg1: "build_graph ev opts restUrl st = foldl (?T ev) (foldl (?P ev) st ?pk) ?tk"
    by (simp add: build_graph_def Let_def)
  have bg2: "build_graph ?ev' opts restUrl st = foldl (?T ?ev') (foldl (?P ?ev') st ?pk) ?tk"
    by (simp add: build_graph_def Let_def)
  have fin: "status (foldl (?T ev) (foldl (?P ev) st ?pk) ?tk) = Ok"
    using ok by (simp add: bg1)
  have mid: "status (foldl (?P ev) st ?pk) = Ok"
  proof (rule ccontr)
    assume n: "status (foldl (?P ev) st ?pk) \<noteq> Ok"
    from foldl_fetch_and_add_stuck[OF n] fin n show False by simp
  qed
  have st: "status st = Ok"
  proof (rule ccontr)
    assume n: "status st \<noteq> Ok"
    from foldl_fetch_and_add_stuck[OF n] mid n show False by simp
  qed
  from foldl_fetch_and_add_reordered[OF same st st refl mid]
  have mid2: "status (foldl (?P ?ev') st ?pk) = Ok"
    and m: "mset (calls (foldl (?P ev) st ?pk)) = mset (calls (foldl (?P ?ev') st ?pk))"
    by simp_all
  from foldl_fetch_and_add_reordered[OF same mid mid2 m fin]
  show ?thesis by (simp add: bg1 bg2)
qed

lemma apply_source_reordered:
  assumes same: "\<forall>u. same_events (queue_events ev u) (q' u)"
    and ok: "status (apply_source ev popts) = Ok"
  shows "status (apply_source (ev\<lparr>queue_events := q'\<rparr>) popts) = Ok \<and>
         mset (calls (apply_source ev popts)) =
         mset (calls (apply_source (ev\<lparr>queue_events := q'\<rparr>) popts))"
proof -
  let ?ev' = "ev\<lparr>queue_events := q'\<rparr>"
  let ?u = "strip_slashes (baseUrl popts) @ ''/wp-json/wp/v2''"
  obtain root where root: "axios_get ev ?u = Inr root"
    using ok by (cases "axios_get ev ?u") (simp_all add: apply_source_def Let_def)
  obtain tr where tr: "axios_get ev (?u @ ''/types'') = Inr tr"
    using ok root by (cases "axios_get ev (?u @ ''/types'')") (simp_all add: apply_source_def Let_def)
  obtain xr where xr: "axios_get ev (?u @ ''/taxonomies'') = Inr xr"
    using ok root tr
    by (cases "axios_get ev (?u @ ''/taxonomies'')") (simp_all add: apply_source_def Let_def)
  let ?st = "discover (merged_routes (routes popts)) (data tr) (data xr)"
  let ?o = "\<lparr>perPage = perPage popts, concurrent = concurrent popts\<rparr>"
  have a1: "apply_source ev popts = build_graph ev ?o ?u ?st"
    using root tr xr by (simp add: apply_source_def Let_def)
  have a2: "apply_source ?ev' popts = build_graph ?ev' ?o ?u ?st"
    using root tr xr by (simp add: apply_source_def Let_def)
  have "status (build_graph ev ?o ?u ?st) = Ok" using ok by (simp add: a1)
  from build_graph_reordered[OF same this] show ?thesis by (simp add: a1 a2)
qed

text \<open>
  Claim C7, as amended. Let two runs of \<^verbatim>\<open>apply\<close> have the same options and
  the same environment (client, parser, \<^verbatim>\<open>makeUid\<close>), the queues emitting for
  every endpoint the same events, possibly in another order. Then one run completes if and
  only if the other does, and the completed runs make the same calls on the store up to
  order: the same types, and the same nodes with the same stable ids and field values.
\<close>

theorem apply_source_deterministic:
  assumes "\<forall>u. same_events (queue_events ev u) (q' u)"
  shows "(status (apply_source ev popts) = Ok \<longleftrightarrow>
          status (apply_source (ev\<lparr>queue_events := q'\<rparr>) popts) = Ok) \<and>
         (status (apply_source ev popts) = Ok \<longrightarrow>
            mset (calls (apply_source ev popts)) =
            mset (calls (apply_source (ev\<lparr>queue_events := q'\<rparr>) popts)))"
proof -
  let ?ev' = "ev\<lparr>queue_events := q'\<rparr>"
  have rev_same: "\<forall>u. same_events (queue_events ?ev' u) (queue_events ev u)"
    using assms by (simp add: same_events_sym)
  have ev: "?ev'\<lparr>queue_events := queue_events ev\<rparr> = ev" by simp
  have fwd: "status (apply_source ?ev' popts) = Ok \<and>
             mset (calls (apply_source ev popts)) = mset (calls (apply_source ?ev' popts))"
    if "status (apply_source ev popts) = Ok"
    by (rule apply_source_reordered[OF assms that])
  have bwd: "status (apply_source ev popts) = Ok" if "status (apply_source ?ev' popts) = Ok"
    using apply_source_reordered[OF rev_same that] by (simp only: ev)
  from fwd bwd show ?thesis by blast
qed

lemma example_rerun:
  "apply_source (example_env\<lparr>queue_events := example_reordered\<rparr>) example_plugin_options =
     \<lparr>status = Ok,
      restBases_posts = [(''post'', JStr ''posts'')],
      restBases_taxonomies = [(''category'', JStr ''categories'')],
      calls =
        [AddType ''post'' (JStr ''Posts'') (JStr ''/:year/:month/:day/:slug''),
         AddType ''category'' (JStr ''Categories'') (JStr ''/category/:slug''),
         AddNode (JStr ''post'')
           (PostNode ''uid:post-1'' (JStr []) NullDate JUndefined (JStr []) (JStr [])
              [(''category'', [''uid:term-3''])]),
         AddNode (JStr ''page'')
           (PostNode ''uid:post-3'' (JStr []) NullDate JUndefined (JStr []) (JStr [])
              [(''category'', [''uid:term-3''])]),
         AddNode (JStr ''post'')
           (PostNode ''uid:post-2'' (JStr []) NullDate JUndefined (JStr []) (JStr [])
              [(''category'', [''uid:term-3''])]),
         AddNode (JStr ''category'')
           (TermNode ''uid:term-3'' (JStr ''news'') (JStr ''News'') (JNum 3))]\<rparr>"
  by code_simp

lemma example_same_events: "\<forall>u. same_events (queue_events example_env u) (example_reordered u)"
  by (simp add: same_events_def example_env_def example_schedule_def example_reordered_def
        add_mset_commute)

theorem apply_source_deterministic_witness:
  "status (apply_source example_env example_plugin_options) = Ok \<and>
   status (apply_source (example_env\<lparr>queue_events := example_reordered\<rparr>) example_plugin_options) = Ok \<and>
   calls (apply_source example_env example_plugin_options) \<noteq>
   calls (apply_source (example_env\<lparr>queue_events := example_reordered\<rparr>) example_plugin_options) \<and>
   mset (calls (apply_source example_env example_plugin_options)) =
   mset (calls (apply_source (example_env\<lparr>queue_events := example_reordered\<rparr>) example_plugin_options))"
proof -
  have ok: "status (apply_source example_env example_plugin_options) = Ok"
    by (simp add: example_run)
  have ne: "calls (apply_source example_env example_plugin_options) \<noteq>
   calls (apply_source (example_env\<lparr>queue_events := example_reordered\<rparr>) example_plugin_options)"
    by (simp add: example_run example_rerun)
  from apply_source_deterministic[OF example_same_events, of example_plugin_options] ok ne
  show ?thesis by blast
qed

text \<open>
  Claim C7 as stated speaks of every pair of runs over the same remote data. Two runs that
  fail need not agree. On the site whose third page holds a record with its categories as
  a string, \<^verbatim>\<open>post[propName].map\<close> throws at that record, and the nodes
  emitted before it depend on the order in which the pages completed: with page 2 first
  the run has emitted the posts 1 and 2, with page 3 first only the post 1. Both runs see
  the same client, parser and \<^verbatim>\<open>makeUid\<close> and the same events of the queue.
\<close>

theorem failed_runs_differ:
  "axios_get example_malformed_env = axios_get example_malformed_env_reordered \<and>
   json_parse example_malformed_env = json_parse example_malformed_env_reordered \<and>
   makeUid example_malformed_env = makeUid example_malformed_env_reordered \<and>
   same_events example_malformed_events example_malformed_events_reordered \<and>
   apply_source example_malformed_env example_plugin_options =
     \<lparr>status = Failed TypeError,
      restBases_posts = [(''post'', JStr ''posts'')],
      restBases_taxonomies = [(''category'', JStr ''categories'')],
      calls =
        [AddType ''post'' (JStr ''Posts'') (JStr ''/:year/:month/:day/:slug''),
         AddType ''category'' (JStr ''Categories'') (JStr ''/category/:slug''),
         AddNode (JStr ''post'')
           (PostNode ''uid:post-1'' (JStr []) NullDate JUndefined (JStr []) (JStr [])
              [(''category'', [''uid:term-3''])]),
         AddNode (JStr ''post'')
           (PostNode ''uid:post-2'' (JStr []) NullDate JUndefined (JStr []) (JStr [])
              [(''category'', [''uid:term-3''])])]\<rparr> \<and>
   apply_source example_malformed_env_reordered example_plugin_options =
     \<lparr>status = Failed TypeError,
      restBases_posts = [(''post'', JStr ''posts'')],
      restBases_taxonomies = [(''category'', JStr ''categories'')],
      calls =
        [AddType ''post'' (JStr ''Posts'') (JStr ''/:year/:month/:day/:slug''),
         AddType ''category'' (JStr ''Categories'') (JStr ''/category/:slug''),
         AddNode (JStr ''post'')
           (PostNode ''uid:post-1'' (JStr []) NullDate JUndefined (JStr []) (JStr [])
              [(''category'', [''uid:term-3''])])]\<rparr> \<and>
   set (calls (apply_source example_malformed_env example_plugin_options)) \<noteq>
   set (calls (apply_source example_malformed_env_reordered example_plugin_options))"
proof -
  have same: "same_events example_malformed_events example_malformed_events_reordered"
    by (simp add: same_events_def example_malformed_events_def
          example_malformed_events_reordered_def add_mset_commute)
  have run1: "apply_source example_malformed_env example_plugin_options =
     \<lparr>status = Failed TypeError,
      restBases_posts = [(''post'', JStr ''posts'')],
      restBases_taxonomies = [(''category'', JStr ''categories'')],
      calls =
        [AddType ''post'' (JStr ''Posts'') (JStr ''/:year/:month/:day/:slug''),
         AddType ''category'' (JStr ''Categories'') (JStr ''/category/:slug''),
         AddNode (JStr ''post'')
           (PostNode ''uid:post-1'' (JStr []) NullDate JUndefined (JStr []) (JStr [])
              [(''category'', [''uid:term-3''])]),
         AddNode (JStr ''post'')
           (PostNode ''uid:post-2'' (JStr []) NullDate JUndefined (JStr []) (JStr [])
              [(''category'', [''uid:term-3''])])]\<rparr>"
    by code_simp
  have run2: "apply_source example_malformed_env_reordered example_plugin_options =
     \<lparr>status = Failed TypeError,
      restBases_posts = [(''post'', JStr ''posts'')],
      restBases_taxonomies = [(''category'', JStr ''categories'')],
      calls =
        [AddType ''post'' (JStr ''Posts'') (JStr ''/:year/:month/:day/:slug''),
         AddType ''category'' (JStr ''Categories'') (JStr ''/category/:slug''),
         AddNode (JStr ''post'')
           (PostNode ''uid:post-1'' (JStr []) NullDate JUndefined (JStr []) (JStr [])
              [(''category'', [''uid:term-3''])])]\<rparr>"
    by code_simp
  have envs: "axios_get example_malformed_env = axios_get example_malformed_env_reordered"
    "json_parse example_malformed_env = json_parse example_malformed_env_reordered"
    "makeUid example_malformed_env = makeUid example_malformed_env_reordered"
    by (simp_all add: example_malformed_env_def example_malformed_env_reordered_def)
  let ?second = "AddNode (JStr ''post'')
           (PostNode ''uid:post-2'' (JStr []) NullDate JUndefined (JStr []) (JStr [])
              [(''category'', [''uid:term-3''])])"
  have in1: "?second \<in> set (calls (apply_source example_malformed_env example_plugin_options))"
    by (simp add: run1)
  have out2: "?second \<notin>
      set (calls (apply_source example_malformed_env_reordered example_plugin_options))"
    by (simp add: run2)
  have differ: "set (calls (apply_source example_malformed_env example_plugin_options)) \<noteq>
   set (calls (apply_source example_malformed_env_reordered example_plugin_options))"
  proof
    assume "set (calls (apply_source example_malformed_env example_plugin_options)) =
      set (calls (apply_source example_malformed_env_reordered example_plugin_options))"
    with in1 have "?second \<in>
      set (calls (apply_source example_malformed_env_reordered example_plugin_options))"
      by (simp only:)
    with out2 show False by contradiction
  qed
  from envs same run1 run2 differ show ?thesis by (intro conjI)
qed

end
